theory Spec2Isabelle
  imports Main
begin

section \<open>Exploration state of the \<open>useExploreChat\<close> hook\<close>

text \<open>
  The hook keeps its session state in React refs: the admission guard \<open>isProcessing\<close>,
  the per-route frontier \<open>exploreQueue\<close> (an object keyed by URL), the ordered list of
  visited routes \<open>exploreRoute\<close>, the graph \<open>exploreGraphData\<close> (nodes and edges) and the
  pointer \<open>currentlyExploring\<close>. The refs become the fields of one record that every
  operation takes and returns. Writes to \<open>localStorage\<close> and to the React context
  (\<open>setGraphData\<close>) copy the refs to collaborators outside the hook and are left out.

  JavaScript exceptions are values of \<open>js_error\<close>: reading a property of \<open>undefined\<close>
  is \<open>TypeError\<close>, a rejected \<open>JSON.parse\<close> is \<open>SyntaxError\<close>, an array length that
  \<open>new Array\<close> refuses is \<open>RangeError\<close>, and \<open>Error\<close> with its message stands for
  \<open>new Error(...)\<close> and for what a collaborator throws.
\<close>

datatype js_error = TypeError | SyntaxError | RangeError | Error string

text \<open>JavaScript truthiness of an optional string: \<open>undefined\<close> and \<open>""\<close> are falsy.\<close>

fun truthy :: "string option \<Rightarrow> bool" where
  "truthy None = False"
| "truthy (Some s) = (s \<noteq> [])"

text \<open>\<open>a || b\<close> on an optional string and a default.\<close>

fun or_else :: "string option \<Rightarrow> string \<Rightarrow> string" where
  "or_else None d = d"
| "or_else (Some s) d = (if s = [] then d else s)"

text \<open>
  \<open>IExploredClickableElement\<close>: its declaration is not part of the sources at hand; the
  hook reads the three fields below and tests the first two for truthiness.
\<close>

record IExploredClickableElement =
  el_text :: "string option"
  el_coordinates :: "string option"
  el_aboutThisElement :: "string option"

record parent_ref =
  p_url :: string
  p_nodeId :: string
  p_id :: string

record IExploreQueueItem =
  q_text :: string
  q_coordinates :: string
  q_aboutThisElement :: string
  q_source :: string
  q_url :: string
  q_id :: string
  q_nodeId :: string
  q_parent :: parent_ref

record graph_node =
  n_id :: string
  n_position :: "nat \<times> nat"
  n_label :: string
  n_edges :: "string list"
  n_imageData :: "string option"
  n_type :: string

record graph_edge =
  e_id :: string
  e_source :: string
  e_target :: string
  e_sourceHandle :: string
  e_type :: string
  e_label :: string

record exploring =
  c_url :: string
  c_id :: string
  c_nodeId :: string
  c_label :: string

text \<open>\<open>imageData?: string | IProcessedScreenshot\<close>; of the object only \<open>image\<close> is read.\<close>

datatype image_data = ImgString string | ImgObject "string option"

text \<open>The request handed to \<open>sendExploreChatMessage\<close>: one outstanding model call.\<close>

record model_call =
  mc_messageId :: string
  mc_message :: string
  mc_type :: string
  mc_image :: "string option"

record explore_state =
  isProcessing :: bool
  activeMessageId :: "string option"
  isChatStreaming :: bool
  exploreQueue :: "string \<rightharpoonup> IExploreQueueItem list"
  exploreRoute :: "string list"
  graph_nodes :: "graph_node list"
  graph_edges :: "graph_edge list"
  currentlyExploring :: "exploring option"
  uuidCalls :: nat
  modelCalls :: "model_call list"

definition initial_state :: explore_state where
  "initial_state = \<lparr> isProcessing = False, activeMessageId = None, isChatStreaming = False,
     exploreQueue = Map.empty, exploreRoute = [], graph_nodes = [], graph_edges = [],
     currentlyExploring = None, uuidCalls = 0, modelCalls = [] \<rparr>"

subsection \<open>Insertion-ordered sets\<close>

text \<open>
  A JavaScript \<open>Set\<close> iterates in insertion order and ignores a repeated \<open>add\<close>. It is
  a list without repetitions: \<open>new Set(xs)\<close> adds the elements of \<open>xs\<close> from left to
  right, \<open>[...s]\<close> is the list itself.
\<close>

definition set_add :: "'a list \<Rightarrow> 'a \<Rightarrow> 'a list" where
  "set_add s x = (if x \<in> set s then s else s @ [x])"

definition new_Set :: "'a list \<Rightarrow> 'a list" where
  "new_Set xs = foldl set_add [] xs"

subsection \<open>Graph construction\<close>

fun starts_with :: "string \<Rightarrow> string \<Rightarrow> bool" where
  "starts_with [] s = True"
| "starts_with (p # ps) [] = False"
| "starts_with (p # ps) (c # cs) = (p = c \<and> starts_with ps cs)"

text \<open>The image normalisation of \<open>createConstructNode\<close>.\<close>

fun construct_image :: "image_data option \<Rightarrow> string option" where
  "construct_image None = None"
| "construct_image (Some (ImgString s)) =
     (if s = [] then None
      else if starts_with ''data:'' s then Some s
      else Some (''data:image/png;base64,'' @ s))"
| "construct_image (Some (ImgObject img)) =
     (if truthy img then img else None)"

definition createConstructNode ::
  "string \<Rightarrow> string \<Rightarrow> image_data option \<Rightarrow> explore_state \<Rightarrow> explore_state" where
  "createConstructNode currentNodeId lbl imageData st =
     (let currentNodelCount = length (graph_nodes st) in
      st\<lparr>graph_nodes := graph_nodes st @
        [\<lparr> n_id = currentNodeId, n_position = (200, currentNodelCount * 100),
           n_label = lbl, n_edges = [], n_imageData = construct_image imageData,
           n_type = ''pageNode'' \<rparr>]\<rparr>)"

definition createEdge ::
  "string \<Rightarrow> string \<Rightarrow> string \<Rightarrow> string \<Rightarrow> explore_state \<Rightarrow> explore_state" where
  "createEdge sourceId targetId edgeId lbl st =
     st\<lparr>graph_edges := graph_edges st @
          [\<lparr> e_id = edgeId, e_source = sourceId, e_target = targetId,
             e_sourceHandle = edgeId, e_type = ''bezier'', e_label = lbl \<rparr>],
        graph_nodes := map (\<lambda>node. if n_id node = sourceId
                                   then node\<lparr>n_edges := n_edges node @ [edgeId]\<rparr>
                                   else node) (graph_nodes st)\<rparr>"

datatype node_lookup = CreateNode | Existing graph_node

text \<open>
  Modelled from the spec: \<open>createEdgeOrNode\<close> of \<open>utils/graph.util.ts\<close> is imported by the
  hook but its source is missing. The spec says of the graph store that pages are
  deduplicated by normalized URL: if a node for the normalized URL exists it is the one
  returned, otherwise a node is to be created. The canonicalisation is pluggable, so it
  is the parameter \<open>norm\<close>; a node carries its URL as its label.
\<close>

definition createEdgeOrNode ::
  "(string \<Rightarrow> string) \<Rightarrow> graph_node list \<Rightarrow> string \<Rightarrow> node_lookup" where
  "createEdgeOrNode norm nodes url =
     (case find (\<lambda>node. norm (n_label node) = norm url) nodes of
        None \<Rightarrow> CreateNode
      | Some node \<Rightarrow> Existing node)"

text \<open>The image written by the backfill branch of \<open>handleEdgeAndNodeCreation\<close>.\<close>

fun backfill_image :: "image_data \<Rightarrow> string option" where
  "backfill_image (ImgString s) =
     (if starts_with ''data:'' s then Some s else Some (''data:image/png;base64,'' @ s))"
| "backfill_image (ImgObject img) =
     (if truthy img then Some (''data:image/png;base64,'' @ the img) else None)"

fun image_truthy :: "image_data option \<Rightarrow> bool" where
  "image_truthy None = False"
| "image_truthy (Some (ImgString s)) = (s \<noteq> [])"
| "image_truthy (Some (ImgObject img)) = True"

text \<open>
  \<open>uuid()\<close> draws from an outside source of identifiers: the parameter \<open>uuid\<close> gives the
  result of the \<open>n\<close>-th call, and the state counts the calls made.
\<close>

definition handleEdgeAndNodeCreation ::
  "(string \<Rightarrow> string) \<Rightarrow> (nat \<Rightarrow> string) \<Rightarrow> string \<Rightarrow> image_data option \<Rightarrow>
   explore_state \<Rightarrow> string \<times> explore_state" where
  "handleEdgeAndNodeCreation norm uuid url imageData st =
     (let canCreateNode = createEdgeOrNode norm (graph_nodes st) url;
          isFirstNode = (graph_nodes st = []);
          (nodeId, st1) =
            (case canCreateNode of
               CreateNode \<Rightarrow>
                 (let nodeId = uuid (uuidCalls st) in
                  (nodeId, createConstructNode nodeId url imageData
                             (st\<lparr>uuidCalls := Suc (uuidCalls st)\<rparr>)))
             | Existing node \<Rightarrow>
                 (n_id node,
                  if isFirstNode \<and> \<not> truthy (n_imageData node) \<and> image_truthy imageData
                  then st\<lparr>graph_nodes := map (\<lambda>nd. if n_id nd = n_id node
                              then nd\<lparr>n_imageData := backfill_image (the imageData)\<rparr>
                              else nd) (graph_nodes st)\<rparr>
                  else st))
      in (nodeId,
          case currentlyExploring st1 of
            None \<Rightarrow> st1
          | Some ce \<Rightarrow> createEdge (c_nodeId ce) nodeId (c_id ce) (c_label ce) st1))"

subsection \<open>Frontier\<close>

text \<open>
  \<open>handleQueueUpdate\<close>: one frontier item per element that carries both text and
  coordinates. \<open>exploreQueue.current[url].push\<close> throws when the route has no queue.
\<close>

definition make_item ::
  "IExploredClickableElement \<Rightarrow> string \<Rightarrow> string \<Rightarrow> string \<Rightarrow> string \<Rightarrow>
   parent_ref option \<Rightarrow> IExploreQueueItem" where
  "make_item element fullResponse url elementId nodeId parent =
     \<lparr> q_text = the (el_text element),
       q_coordinates = the (el_coordinates element),
       q_aboutThisElement = or_else (el_aboutThisElement element) [],
       q_source = fullResponse,
       q_url = url,
       q_id = elementId,
       q_nodeId = nodeId,
       q_parent = \<lparr> p_url = or_else (map_option p_url parent) url,
                    p_nodeId = or_else (map_option p_nodeId parent) nodeId,
                    p_id = or_else (map_option p_id parent) elementId \<rparr> \<rparr>"

fun handleQueueUpdate ::
  "(nat \<Rightarrow> string) \<Rightarrow> IExploredClickableElement list \<Rightarrow> string \<Rightarrow> string \<Rightarrow> string \<Rightarrow>
   parent_ref option \<Rightarrow> explore_state \<Rightarrow> js_error + explore_state" where
  "handleQueueUpdate uuid [] fullResponse url nodeId parent st = Inr st"
| "handleQueueUpdate uuid (element # rest) fullResponse url nodeId parent st =
     (if truthy (el_text element) \<and> truthy (el_coordinates element) then
        (let elementId = uuid (uuidCalls st);
             exploredOutput = make_item element fullResponse url elementId nodeId parent
         in case exploreQueue st url of
              None \<Rightarrow> Inl TypeError
            | Some q \<Rightarrow>
                handleQueueUpdate uuid rest fullResponse url nodeId parent
                  (st\<lparr>exploreQueue := (exploreQueue st)(url \<mapsto> q @ [exploredOutput]),
                      uuidCalls := Suc (uuidCalls st)\<rparr>))
      else handleQueueUpdate uuid rest fullResponse url nodeId parent st)"

text \<open>\<open>cleanCompletedQueue\<close>: the removal of exhausted routes is commented out in the
  source, so the result is the set of the explored routes whatever the queue holds.\<close>

definition cleanCompletedQueue ::
  "string list \<Rightarrow> (string \<rightharpoonup> IExploreQueueItem list) \<Rightarrow> string list" where
  "cleanCompletedQueue exploredRoutes currentQueue = new_Set exploredRoutes"

text \<open>
  \<open>processExploreOutput\<close>. \<open>MessageProcessor.processExploreMessage\<close> is not among the
  sources, so the elements it extracts from the response are the parameter
  \<open>processedExploreMessage\<close>. \<open>urlReply\<close> is what \<open>getCurrentUrl\<close> resolves to when it is
  awaited (\<open>None\<close> for \<open>null\<close>); it is only consulted when there are elements. The result
  pairs the returned element (\<open>None\<close> for \<open>null\<close> and for the bare \<open>return\<close>) with the
  new state.
\<close>

definition processExploreOutput ::
  "(string \<Rightarrow> string) \<Rightarrow> (nat \<Rightarrow> string) \<Rightarrow> IExploredClickableElement list \<Rightarrow> string \<Rightarrow>
   parent_ref option \<Rightarrow> string option \<Rightarrow> image_data option \<Rightarrow> explore_state \<Rightarrow>
   js_error + (IExploredClickableElement option \<times> explore_state)" where
  "processExploreOutput norm uuid processedExploreMessage fullResponse parent urlReply imageData st =
     (let routeSet = cleanCompletedQueue (exploreRoute st) (exploreQueue st) in
      if processedExploreMessage \<noteq> [] then
        (if \<not> truthy urlReply then Inr (None, st)
         else
           (let url = the urlReply in
            if url \<notin> set routeSet then
              (let routeSet' = set_add routeSet url;
                   st1 = st\<lparr>exploreQueue := (exploreQueue st)(url \<mapsto> [])\<rparr>;
                   (nodeId, st2) = handleEdgeAndNodeCreation norm uuid url imageData st1
               in case handleQueueUpdate uuid processedExploreMessage fullResponse url nodeId
                         parent st2 of
                    Inl e \<Rightarrow> Inl e
                  | Inr st3 \<Rightarrow>
                      Inr (Some (hd processedExploreMessage), st3\<lparr>exploreRoute := routeSet'\<rparr>))
            else Inr (Some (hd processedExploreMessage), st\<lparr>exploreRoute := routeSet\<rparr>)))
      else Inr (None, st\<lparr>exploreRoute := routeSet\<rparr>))"

text \<open>
  \<open>getNextToExplore\<close>: the route looked at is always \<open>exploreRoute.current[0]\<close>; an empty
  string is falsy and counts as no route. \<open>shift()\<close> on an empty queue gives
  \<open>undefined\<close>, on a missing queue it throws.
\<close>

definition getNextToExplore ::
  "explore_state \<Rightarrow> js_error + (IExploreQueueItem option \<times> explore_state)" where
  "getNextToExplore st =
     (case exploreRoute st of
        [] \<Rightarrow> Inr (None, st)
      | route # _ \<Rightarrow>
          if route = [] then Inr (None, st)
          else (case exploreQueue st route of
                  None \<Rightarrow> Inl TypeError
                | Some [] \<Rightarrow> Inr (None, st)
                | Some (nextItem # remaining) \<Rightarrow>
                    Inr (Some nextItem,
                         st\<lparr>exploreQueue := (exploreQueue st)(route \<mapsto> remaining),
                            currentlyExploring :=
                              Some \<lparr> c_url = route, c_id = q_id nextItem,
                                     c_nodeId = q_nodeId nextItem,
                                     c_label = q_text nextItem \<rparr>\<rparr>)))"

subsection \<open>Admission of a model turn\<close>

text \<open>
  \<open>handleExploreMessage\<close> up to the point where the request has been handed to
  \<open>sendExploreChatMessage\<close>: the guard, the bookkeeping and the call. \<open>messageId\<close> is
  the string built from \<open>Date.now()\<close>.
\<close>

fun processed_image :: "image_data option \<Rightarrow> string option" where
  "processed_image None = None"
| "processed_image (Some (ImgString s)) = (if s = [] then None else Some s)"
| "processed_image (Some (ImgObject img)) = (if truthy img then img else None)"

definition handleExploreMessage ::
  "string \<Rightarrow> string \<Rightarrow> string \<Rightarrow> image_data option \<Rightarrow> explore_state \<Rightarrow> explore_state" where
  "handleExploreMessage messageId currentMessage type imageData st =
     (if isProcessing st then st
      else st\<lparr>isProcessing := True,
              activeMessageId := Some messageId,
              isChatStreaming := True,
              modelCalls := modelCalls st @
                [\<lparr> mc_messageId = messageId, mc_message = currentMessage, mc_type = type,
                   mc_image = processed_image imageData \<rparr>]\<rparr>)"

section \<open>The protocol parser (\<open>MessagePatterns\<close>)\<close>

text \<open>
  Strings are lists of 8-bit characters here, so the white space of \<open>\s\<close> and of
  \<open>String.prototype.trim\<close> is what lies in that range: tab, line feed, vertical tab,
  form feed, carriage return, space and the no-break space.
\<close>

definition is_space :: "char \<Rightarrow> bool" where
  "is_space c = (c \<in> set [CHR 0x09, CHR 0x0A, CHR 0x0B, CHR 0x0C, CHR 0x0D, CHR 0x20, CHR 0xA0])"

definition trim :: "string \<Rightarrow> string" where
  "trim s = rev (dropWhile is_space (rev (dropWhile is_space s)))"

text \<open>\<open>s.indexOf(pat)\<close>, with \<open>None\<close> for \<open>-1\<close>, and \<open>s.indexOf(pat, from)\<close>.\<close>

fun indexOf :: "string \<Rightarrow> string \<Rightarrow> nat option" where
  "indexOf pat [] = (if pat = [] then Some 0 else None)"
| "indexOf pat (c # cs) =
     (if starts_with pat (c # cs) then Some 0 else map_option Suc (indexOf pat cs))"


subsection \<open>Regular expressions\<close>

text \<open>
  The four patterns use literals, the classes \<open>[\s\n]\<close>, \<open>[\s\S]\<close> and \<open>.\<close> (which, under
  the flag \<open>s\<close>, matches every character like \<open>[\s\S]\<close>) under a greedy or a lazy star,
  capture groups, one alternative of literals, and optional non-capturing groups. A
  pattern is the list of its pieces. \<open>Close n s0\<close> does not occur in a pattern: the
  matcher puts it behind the body of group \<open>n\<close> entered at input \<open>s0\<close>, and on reaching
  it records what the group has consumed.

  \<open>rmatch\<close> is the backtracking matcher of ECMAScript at a fixed start: alternatives
  are tried in order, a greedy star takes a character before it tries the rest, a lazy
  star tries the rest first, an optional group is tried before it is skipped, and the
  captures are those of the first way through that succeeds. The rest of the input
  behind the match is free. Every optional group of the patterns starts with a literal,
  so none can match the empty string.
\<close>

datatype cls = Space | AnyChar

fun in_cls :: "cls \<Rightarrow> char \<Rightarrow> bool" where
  "in_cls Space c = is_space c"
| "in_cls AnyChar c = True"

datatype rx =
    Lit string
  | Greedy cls
  | Lazy cls
  | Alt "string list"
  | Group nat "rx list"
  | Close nat string
  | Opt "rx list"

fun weight :: "rx \<Rightarrow> nat" where
  "weight (Lit l) = 1"
| "weight (Greedy c) = 1"
| "weight (Lazy c) = 1"
| "weight (Alt alts) = 2 + length alts"
| "weight (Group n body) = 2 + sum_list (map weight body)"
| "weight (Close n s0) = 1"
| "weight (Opt body) = 1 + sum_list (map weight body)"

type_synonym captures = "nat \<rightharpoonup> string"

function rmatch :: "rx list \<Rightarrow> string \<Rightarrow> captures \<Rightarrow> captures option" where
  "rmatch [] s caps = Some caps"
| "rmatch (Lit l # r) s caps =
     (if starts_with l s then rmatch r (drop (length l) s) caps else None)"
| "rmatch (Greedy c # r) [] caps = rmatch r [] caps"
| "rmatch (Greedy c # r) (x # xs) caps =
     (if in_cls c x
      then (case rmatch (Greedy c # r) xs caps of
              Some m \<Rightarrow> Some m
            | None \<Rightarrow> rmatch r (x # xs) caps)
      else rmatch r (x # xs) caps)"
| "rmatch (Lazy c # r) [] caps = rmatch r [] caps"
| "rmatch (Lazy c # r) (x # xs) caps =
     (case rmatch r (x # xs) caps of
        Some m \<Rightarrow> Some m
      | None \<Rightarrow> if in_cls c x then rmatch (Lazy c # r) xs caps else None)"
| "rmatch (Alt [] # r) s caps = None"
| "rmatch (Alt (a # alts) # r) s caps =
     (case rmatch (Lit a # r) s caps of
        Some m \<Rightarrow> Some m
      | None \<Rightarrow> rmatch (Alt alts # r) s caps)"
| "rmatch (Group n body # r) s caps = rmatch (body @ Close n s # r) s caps"
| "rmatch (Close n s0 # r) s caps =
     rmatch r s (caps(n \<mapsto> take (length s0 - length s) s0))"
| "rmatch (Opt body # r) s caps =
     (case rmatch (body @ r) s caps of
        Some m \<Rightarrow> Some m
      | None \<Rightarrow> rmatch r s caps)"
  by pat_completeness auto
termination
  by (relation "measures [\<lambda>(p, s, caps). sum_list (map weight p), \<lambda>(p, s, caps). length s]")
     auto






subsection \<open>Message parts and the tag processors\<close>








subsection \<open>\<open>parseMessage\<close>\<close>













section \<open>The model session client (\<open>ExploreModeAnthropicProvider\<close>)\<close>

text \<open>
  The provider writes server-sent events to the HTTP response \<open>res\<close>; the response is
  the list of the events written so far, and what is written stays written when a later
  statement throws. The \<open>timestamp\<close> field of an event (\<open>Date.now()\<close>) is left out.

  The provider SDK is outside the sources. One attempt either throws before any chunk
  arrives (the request is built and \<open>client.messages.create\<close> is awaited inside the
  \<open>try\<close>), or yields a stream of chunks that ends or throws.
\<close>

record 'i StreamResponse =
  sr_message :: string
  sr_isComplete :: bool
  sr_isError :: "bool option"
  sr_imageData :: "'i option"

record stream_chunk =
  ch_type :: string
  ch_delta_text :: "string option"

datatype stream_end = StreamDone | StreamThrows js_error

datatype attempt = RequestThrows js_error | Streams "stream_chunk list" stream_end

datatype ExploreActionTypes = EXPLORE | ACTION

definition sendStreamResponse ::
  "'i StreamResponse list \<Rightarrow> 'i StreamResponse \<Rightarrow> 'i StreamResponse list" where
  "sendStreamResponse res d = res @ [d]"

definition chunk_event :: "string \<Rightarrow> 'i StreamResponse" where
  "chunk_event t =
     \<lparr> sr_message = t, sr_isComplete = False, sr_isError = None, sr_imageData = None \<rparr>"

definition complete_event :: "'i option \<Rightarrow> 'i StreamResponse" where
  "complete_event img =
     \<lparr> sr_message = [], sr_isComplete = True, sr_isError = None, sr_imageData = img \<rparr>"

definition retry_notice :: "'i StreamResponse" where
  "retry_notice =
     \<lparr> sr_message = ''Error processing message re-trying'', sr_isComplete = False,
       sr_isError = Some False, sr_imageData = None \<rparr>"

definition terminal_error :: "'i StreamResponse" where
  "terminal_error =
     \<lparr> sr_message = ''Error processing message. Please try again later.'',
       sr_isComplete = False, sr_isError = Some True, sr_imageData = None \<rparr>"

fun forward_chunks ::
  "stream_chunk list \<Rightarrow> 'i StreamResponse list \<Rightarrow> 'i StreamResponse list" where
  "forward_chunks [] res = res"
| "forward_chunks (chunk # rest) res =
     forward_chunks rest
       (if ch_type chunk = ''content_block_delta'' \<and> truthy (ch_delta_text chunk)
        then sendStreamResponse res (chunk_event (the (ch_delta_text chunk)))
        else res)"

definition processStreamResponse ::
  "stream_chunk list \<Rightarrow> stream_end \<Rightarrow> 'i StreamResponse list \<Rightarrow> 'i option \<Rightarrow>
   'i StreamResponse list \<times> js_error option" where
  "processStreamResponse chunks ending res imageData =
     (let res' = forward_chunks chunks res in
      case ending of
        StreamThrows e \<Rightarrow> (res', Some e)
      | StreamDone \<Rightarrow> (sendStreamResponse res' (complete_event imageData), None))"

definition processStream ::
  "attempt \<Rightarrow> 'i StreamResponse list \<Rightarrow> 'i option \<Rightarrow> 'i StreamResponse list \<times> bool" where
  "processStream att res imageData =
     (case att of
        RequestThrows e \<Rightarrow> (sendStreamResponse res retry_notice, False)
      | Streams chunks ending \<Rightarrow>
          (case processStreamResponse chunks ending res imageData of
             (res', None) \<Rightarrow> (res', True)
           | (res', Some e) \<Rightarrow> (sendStreamResponse res' retry_notice, False)))"

fun retry_loop ::
  "(nat \<Rightarrow> attempt) \<Rightarrow> nat \<Rightarrow> nat \<Rightarrow> 'i StreamResponse list \<Rightarrow> 'i option \<Rightarrow>
   'i StreamResponse list \<times> bool" where
  "retry_loop attempts 0 k res imageData = (res, False)"
| "retry_loop attempts (Suc n) k res imageData =
     (case processStream (attempts k) res imageData of
        (res', isRetrySuccessful) \<Rightarrow>
          if isRetrySuccessful then (res', True)
          else retry_loop attempts n (Suc k) res' imageData)"

text \<open>
  \<open>streamResponse\<close>. \<open>attempts k\<close> is what the provider does on the \<open>k\<close>-th call of
  \<open>processStream\<close>; \<open>description\<close> is the outcome of \<open>generateComponentDescription\<close>,
  awaited outside any \<open>try\<close> when the type is \<open>EXPLORE\<close>. The result is the response
  and, if \<open>streamResponse\<close> rejects, the error.

  \<open>new Array(retryCount)\<close> throws a \<open>RangeError\<close> unless \<open>retryCount\<close> is an integer
  from \<open>0\<close> to \<open>2\<^sup>3\<^sup>2 - 1\<close>; \<open>retryCount\<close> is an integer here.
\<close>

definition streamResponse ::
  "(nat \<Rightarrow> attempt) \<Rightarrow> js_error + bool \<Rightarrow> 'i StreamResponse list \<Rightarrow> ExploreActionTypes \<Rightarrow>
   'i option \<Rightarrow> int \<Rightarrow> 'i StreamResponse list \<times> js_error option" where
  "streamResponse attempts description res type imageData retryCount =
     (case (if type = EXPLORE then description else Inr False) of
        Inl e \<Rightarrow> (res, Some e)
      | Inr _ \<Rightarrow>
          if retryCount < 0 \<or> 4294967295 < retryCount then (res, Some RangeError)
          else (case retry_loop attempts (nat retryCount) 0 res imageData of
                  (res', isRetrySuccessful) \<Rightarrow>
                    if \<not> isRetrySuccessful
                    then (sendStreamResponse res' terminal_error, None)
                    else (res', None)))"

text \<open>
  Vocabulary: an attempt that throws, and the text deltas it had received before it threw,
  read off the chunks of the attempt.
\<close>

fun attempt_fails :: "attempt \<Rightarrow> bool" where
  "attempt_fails (RequestThrows e) = True"
| "attempt_fails (Streams chunks StreamDone) = False"
| "attempt_fails (Streams chunks (StreamThrows e)) = True"

definition all_fail :: "(nat \<Rightarrow> attempt) \<Rightarrow> nat \<Rightarrow> bool" where
  "all_fail attempts n = list_all (\<lambda>k. attempt_fails (attempts k)) [0..<n]"

fun chunks_of :: "attempt \<Rightarrow> stream_chunk list" where
  "chunks_of (RequestThrows e) = []"
| "chunks_of (Streams chunks ending) = chunks"

definition is_text_delta :: "stream_chunk \<Rightarrow> bool" where
  "is_text_delta chunk =
     (ch_type chunk = ''content_block_delta'' \<and> ch_delta_text chunk \<notin> {None, Some []})"

definition text_deltas :: "attempt \<Rightarrow> string list" where
  "text_deltas att = map (\<lambda>chunk. the (ch_delta_text chunk)) (filter is_text_delta (chunks_of att))"


section \<open>The chat stream consumer (\<open>sendChatMessage\<close>)\<close>

text \<open>
  \<open>sendChatMessage\<close> from the point where \<open>fetch\<close> has returned a response with a body:
  the reader is taken, the 60-second timer is set and the read loop is started. Timer and
  loop run on the event loop, so what the function does is determined by the order in
  which the timer fires and the calls of \<open>reader.read()\<close> return; the function is a step
  function over these events. \<open>fetch\<close> is awaited before the timer is set, and the
  \<open>cleanup\<close> function handed to the caller is not called by \<open>sendChatMessage\<close> itself;
  neither is part of the runs below.

  The state: the variable \<open>hasReceivedMessage\<close>; whether the timer of \<open>connectionTimeout\<close>
  is pending (set, and neither cleared nor fired); whether \<open>reader.cancel()\<close> was called;
  whether the loop is still reading; and the callbacks called so far. What a cancelled
  reader delivers is the platform's matter and is given by the events.

  A chunk is the text \<open>decoder.decode(value)\<close>. \<open>JSON_parse\<close> stands for \<open>JSON.parse\<close>
  followed by the reading of the three fields: it gives the truthiness of \<open>isComplete\<close>
  and of \<open>isError\<close> and the message, or the error thrown (a \<open>SyntaxError\<close>, or the
  \<open>TypeError\<close> of reading a field of \<open>null\<close>).
\<close>

record sse_data =
  d_isComplete :: bool
  d_isError :: bool
  d_message :: "string option"

datatype callback = OnChunk string | OnComplete | OnError js_error

datatype reader_event = TimerFires | ReadValue string | ReadDone | ReadThrows js_error

record chat_state =
  hasReceivedMessage :: bool
  timerPending :: bool
  readerCancelled :: bool
  reading :: bool
  callbacks :: "callback list"

text \<open>\<open>chunk.split('\n')\<close>.\<close>

fun split_lines :: "string \<Rightarrow> string list" where
  "split_lines [] = [] # []"
| "split_lines (c # cs) =
     (if c = CHR 0x0A then [] # split_lines cs
      else (case split_lines cs of
              [] \<Rightarrow> [c] # []
            | line # lines \<Rightarrow> (c # line) # lines))"

text \<open>
  The \<open>for\<close> loop over the lines of one chunk: the callbacks it calls, and whether the
  read loop goes on (\<open>False\<close> after a \<open>return\<close> or a throw).
\<close>

fun process_lines ::
  "(string \<Rightarrow> js_error + sse_data) \<Rightarrow> string list \<Rightarrow> callback list \<times> bool" where
  "process_lines JSON_parse [] = ([], True)"
| "process_lines JSON_parse (line # rest) =
     (if starts_with ''data: '' line
      then (case JSON_parse (drop 6 line) of
              Inl e \<Rightarrow> ([OnError e], False)
            | Inr d \<Rightarrow>
                if d_isComplete d then ([OnComplete], False)
                else if d_isError d
                then ([OnError (Error (case d_message d of None \<Rightarrow> [] | Some m \<Rightarrow> m))], False)
                else if truthy (d_message d)
                then (case process_lines JSON_parse rest of
                        (cbs, go) \<Rightarrow> (OnChunk (the (d_message d)) # cbs, go))
                else process_lines JSON_parse rest)
      else process_lines JSON_parse rest)"

fun chat_step ::
  "(string \<Rightarrow> js_error + sse_data) \<Rightarrow> reader_event \<Rightarrow> chat_state \<Rightarrow> chat_state" where
  "chat_step JSON_parse TimerFires st =
     (if \<not> timerPending st then st
      else if \<not> hasReceivedMessage st
      then st \<lparr> timerPending := False, readerCancelled := True,
                callbacks := callbacks st
                  @ [OnError (Error ''Connection timeout - no response received'')] \<rparr>
      else st \<lparr> timerPending := False \<rparr>)"
| "chat_step JSON_parse ReadDone st =
     (if \<not> reading st then st
      else st \<lparr> reading := False, callbacks := callbacks st @ [OnComplete] \<rparr>)"
| "chat_step JSON_parse (ReadValue chunk) st =
     (if \<not> reading st then st
      else (case process_lines JSON_parse
                   (filter (\<lambda>line. trim line \<noteq> []) (split_lines chunk)) of
              (cbs, go) \<Rightarrow>
                st \<lparr> hasReceivedMessage := True, timerPending := False, reading := go,
                     callbacks := callbacks st @ cbs \<rparr>))"
| "chat_step JSON_parse (ReadThrows e) st =
     (if \<not> reading st then st
      else st \<lparr> timerPending := False, reading := False,
                callbacks := callbacks st @ [OnError e] \<rparr>)"

fun chat_run ::
  "(string \<Rightarrow> js_error + sse_data) \<Rightarrow> reader_event list \<Rightarrow> chat_state \<Rightarrow> chat_state" where
  "chat_run JSON_parse [] st = st"
| "chat_run JSON_parse (ev # evs) st = chat_run JSON_parse evs (chat_step JSON_parse ev st)"

definition sendChatMessage ::
  "(string \<Rightarrow> js_error + sse_data) \<Rightarrow> reader_event list \<Rightarrow> chat_state" where
  "sendChatMessage JSON_parse evs =
     chat_run JSON_parse evs
       \<lparr> hasReceivedMessage = False, timerPending = True, readerCancelled = False,
         reading = True, callbacks = [] \<rparr>"


section \<open>The current URL\<close>

text \<open>
  \<open>getCurrentUrlBasedOnSource\<close> (backend). \<open>isBrowserReady\<close> and \<open>puppeteerUrl\<close> are the
  outcomes of \<open>PuppeteerActions.isBrowserReady()\<close> and \<open>PuppeteerActions.getCurrentUrl()\<close>.
\<close>

definition getCurrentUrlBasedOnSource ::
  "string \<Rightarrow> js_error + bool \<Rightarrow> js_error + string \<Rightarrow> string" where
  "getCurrentUrlBasedOnSource source isBrowserReady puppeteerUrl =
     (if source = ''chrome-puppeteer'' then
        (case isBrowserReady of
           Inl e \<Rightarrow> []
         | Inr ready \<Rightarrow>
             if ready then (case puppeteerUrl of Inl e \<Rightarrow> [] | Inr pageUrl \<Rightarrow> pageUrl)
             else [])
      else if source = ''ubuntu-docker-vnc'' then ''IDENTIFY URL FROM SCREENSHOT''
      else [])"

text \<open>
  \<open>getCurrentUrl\<close> (frontend): \<open>data.url\<close> of the reply, \<open>null\<close> when the request or the
  decoding of its body throws.
\<close>

definition getCurrentUrl :: "js_error + string option \<Rightarrow> string option" where
  "getCurrentUrl reply = (case reply of Inl e \<Rightarrow> None | Inr url \<Rightarrow> url)"

section \<open>Vocabulary of the statements and scenario data\<close>

subsection \<open>Vocabulary\<close>

text \<open>The admission test of \<open>handleQueueUpdate\<close>: text and coordinates both truthy.\<close>

definition admitted :: "IExploredClickableElement \<Rightarrow> bool" where
  "admitted e = (truthy (el_text e) \<and> truthy (el_coordinates e))"

text \<open>The edge \<open>createEdge\<close> is called with for an item being explored and a target.\<close>

definition edge_for :: "exploring \<Rightarrow> string \<Rightarrow> graph_edge" where
  "edge_for ce targetId = \<lparr> e_id = c_id ce, e_source = c_nodeId ce, e_target = targetId,
       e_sourceHandle = c_id ce, e_type = ''bezier'', e_label = c_label ce \<rparr>"

text \<open>
  \<open>handleMessageCompletion\<close> passes \<open>currentlyExploring.current\<close> as the parent of a
  discovery, and \<open>onGettingExploredMode\<close> dequeues. A session is a sequence of the two.
\<close>

definition parent_of :: "exploring option \<Rightarrow> parent_ref option" where
  "parent_of ce = map_option (\<lambda>c. \<lparr> p_url = c_url c, p_nodeId = c_nodeId c, p_id = c_id c \<rparr>) ce"

datatype explore_event =
    Discover "IExploredClickableElement list" string "string option" "image_data option"
  | Dequeue

fun step ::
  "(string \<Rightarrow> string) \<Rightarrow> (nat \<Rightarrow> string) \<Rightarrow> explore_event \<Rightarrow> explore_state \<Rightarrow>
   js_error + explore_state" where
  "step norm uuid (Discover elems fullResponse urlReply imageData) st =
     (case processExploreOutput norm uuid elems fullResponse
             (parent_of (currentlyExploring st)) urlReply imageData st of
        Inl e \<Rightarrow> Inl e
      | Inr (_, st') \<Rightarrow> Inr st')"
| "step norm uuid Dequeue st =
     (case getNextToExplore st of Inl e \<Rightarrow> Inl e | Inr (_, st') \<Rightarrow> Inr st')"

fun run ::
  "(string \<Rightarrow> string) \<Rightarrow> (nat \<Rightarrow> string) \<Rightarrow> explore_event list \<Rightarrow> explore_state \<Rightarrow>
   js_error + explore_state" where
  "run norm uuid [] st = Inr st"
| "run norm uuid (ev # evs) st =
     (case step norm uuid ev st of Inl e \<Rightarrow> Inl e | Inr st' \<Rightarrow> run norm uuid evs st')"

text \<open>
  The frontier as the statements speak of it: the visited routes, oldest first, and for
  each route the texts of its elements not yet consumed, oldest first. A discovery with
  elements at a URL that is not yet a route appends the route with the admitted elements
  in the order given; a dequeue removes the oldest element of the first route.
\<close>

type_synonym frontier = "string list \<times> (string \<Rightarrow> string list)"

fun frontier_step :: "explore_event \<Rightarrow> frontier \<Rightarrow> frontier" where
  "frontier_step (Discover elems fullResponse urlReply imageData) (routes, pending) =
     (if elems \<noteq> [] \<and> urlReply \<notin> {None, Some []} \<and> the urlReply \<notin> set routes
      then (routes @ [the urlReply],
            pending (the urlReply := map (\<lambda>e. the (el_text e)) (filter admitted elems)))
      else (routes, pending))"
| "frontier_step Dequeue (routes, pending) =
     (case routes of
        [] \<Rightarrow> (routes, pending)
      | first # later \<Rightarrow> (routes, pending (first := tl (pending first))))"

fun frontier_after :: "explore_event list \<Rightarrow> frontier \<Rightarrow> frontier" where
  "frontier_after [] f = f"
| "frontier_after (ev # evs) f = frontier_after evs (frontier_step ev f)"

fun oldest_pending :: "frontier \<Rightarrow> string option" where
  "oldest_pending ([], pending) = None"
| "oldest_pending (first # later, pending) =
     (case pending first of [] \<Rightarrow> None | t # ts \<Rightarrow> Some t)"

definition frontier_of :: "explore_state \<Rightarrow> frontier" where
  "frontier_of st =
     (exploreRoute st,
      \<lambda>r. case exploreQueue st r of None \<Rightarrow> [] | Some q \<Rightarrow> map q_text q)"






subsection \<open>Data of the scenarios\<close>

definition uuid0 :: "nat \<Rightarrow> string" where
  "uuid0 n = ''id-'' @ replicate n (CHR ''i'')"

definition login_element :: IExploredClickableElement where
  "login_element = \<lparr> el_text = Some ''Login'', el_coordinates = Some ''10,20'',
                      el_aboutThisElement = None \<rparr>"

definition signup_element :: IExploredClickableElement where
  "signup_element = \<lparr> el_text = Some ''Signup'', el_coordinates = Some ''30,40'',
                       el_aboutThisElement = Some ''opens the form'' \<rparr>"

definition queued_state :: explore_state where
  "queued_state = initial_state\<lparr>exploreQueue := [''https://x/a'' \<mapsto> []],
                                 exploreRoute := [''https://x/a'']\<rparr>"

text \<open>What holds of the frontier in every state a session reaches: the visited routes
  are pairwise different and non-empty strings, and each has a queue.\<close>

definition frontier_inv :: "explore_state \<Rightarrow> bool" where
  "frontier_inv st = (distinct (exploreRoute st) \<and>
      (\<forall>r \<in> set (exploreRoute st). r \<noteq> [] \<and> exploreQueue st r \<noteq> None))"

text \<open>Page \<open>a\<close> is discovered with the element Login, which is then dequeued.\<close>

definition scenario_events :: "explore_event list" where
  "scenario_events = [Discover [login_element] ''r1'' (Some ''https://x/a'') None, Dequeue]"

definition scenario_state :: explore_state where
  "scenario_state =
     (case run (\<lambda>u. u) uuid0 scenario_events initial_state of
        Inl e \<Rightarrow> initial_state | Inr st \<Rightarrow> st)"

text \<open>Page \<open>a\<close> with Login, Login dequeued, then page \<open>b\<close> discovered with Signup.\<close>

definition stalled_events :: "explore_event list" where
  "stalled_events =
     [Discover [login_element] ''r1'' (Some ''https://x/a'') None,
      Dequeue,
      Discover [signup_element] ''r2'' (Some ''https://x/b'') None]"

text \<open>URLs compared as they are, and the state the three events above lead to.\<close>

definition exact_url :: "string \<Rightarrow> string" where
  "exact_url url = url"

definition stalled_state :: explore_state where
  "stalled_state =
     (case run exact_url uuid0 stalled_events initial_state of
        Inl e \<Rightarrow> initial_state | Inr st \<Rightarrow> st)"




text \<open>Three attempts that fail; the second one after a text delta has been forwarded.\<close>

definition failing_attempts :: "nat \<Rightarrow> attempt" where
  "failing_attempts k =
     (if k = 1
      then Streams [\<lparr> ch_type = ''message_start'', ch_delta_text = None \<rparr>,
                    \<lparr> ch_type = ''content_block_delta'', ch_delta_text = Some ''Hel'' \<rparr>]
             (StreamThrows (Error ''connection reset''))
      else RequestThrows (Error ''overloaded''))"

text \<open>Attempts that succeed at once, after the same text delta.\<close>

definition succeeding_attempts :: "nat \<Rightarrow> attempt" where
  "succeeding_attempts k =
     Streams [\<lparr> ch_type = ''content_block_delta'', ch_delta_text = Some ''Hel'' \<rparr>] StreamDone"

text \<open>Stands for \<open>JSON.parse\<close> in the example of the chat stream: one message event.\<close>

definition json_hel :: "string \<Rightarrow> js_error + sse_data" where
  \<open>json_hel s =
     (if s = ''{"message":"Hel"}''
      then Inr \<lparr> d_isComplete = False, d_isError = False, d_message = Some ''Hel'' \<rparr>
      else Inl SyntaxError)\<close>

definition hel_chunk :: string where
  \<open>hel_chunk = ''data: {"message":"Hel"}'' @ [CHR 0x0A, CHR 0x0A]\<close>

section \<open>Properties of the exploration state\<close>

lemma new_Set_distinct_aux:
  "distinct (acc @ xs) \<Longrightarrow> foldl set_add acc xs = acc @ xs"
  by (induction xs arbitrary: acc) (auto simp: set_add_def)

lemma new_Set_distinct: "distinct xs \<Longrightarrow> new_Set xs = xs"
  using new_Set_distinct_aux [of "[]" xs] by (simp add: new_Set_def)

lemma set_foldl_set_add: "set (foldl set_add acc xs) = set acc \<union> set xs"
  by (induction xs arbitrary: acc) (auto simp: set_add_def)

lemma set_new_Set: "set (new_Set xs) = set xs"
  by (simp add: new_Set_def set_foldl_set_add)

subsection \<open>The frontier update\<close>

lemma handleQueueUpdate_frame:
  "handleQueueUpdate uuid elems fullResponse url nodeId parent st = Inr st' \<Longrightarrow>
     graph_nodes st' = graph_nodes st \<and> graph_edges st' = graph_edges st \<and>
     exploreRoute st' = exploreRoute st \<and> currentlyExploring st' = currentlyExploring st \<and>
     isProcessing st' = isProcessing st \<and> modelCalls st' = modelCalls st \<and>
     (\<forall>r. r \<noteq> url \<longrightarrow> exploreQueue st' r = exploreQueue st r)"
proof (induction elems arbitrary: st)
  case Nil
  then show ?case by simp
next
  case (Cons element rest)
  show ?case
  proof (cases "truthy (el_text element) \<and> truthy (el_coordinates element)")
    case False
    with Cons show ?thesis by auto
  next
    case True
    with Cons.prems obtain q where q: "exploreQueue st url = Some q"
      by (auto simp: Let_def split: option.splits)
    from Cons.prems True q Cons.IH show ?thesis
      by (fastforce simp: Let_def)
  qed
qed

lemma upt_shift: "[n ..< n + Suc k] = n # [Suc n ..< Suc n + k]"
  using upt_conv_Cons [of n "Suc (n + k)"] by (simp del: upt_Suc)

lemma handleQueueUpdate_appends:
  assumes "exploreQueue st url = Some q"
  shows "\<exists>st' new.
           handleQueueUpdate uuid elems fullResponse url nodeId parent st = Inr st'
         \<and> exploreQueue st' url = Some (q @ new)
         \<and> map q_parent new =
             map (\<lambda>it. \<lparr> p_url = or_else (map_option p_url parent) (q_url it),
                          p_nodeId = or_else (map_option p_nodeId parent) (q_nodeId it),
                          p_id = or_else (map_option p_id parent) (q_id it) \<rparr>) new
         \<and> map q_id new = map uuid [uuidCalls st ..< uuidCalls st + length new]
         \<and> map q_url new = replicate (length new) url
         \<and> map q_nodeId new = replicate (length new) nodeId
         \<and> map (Some \<circ> q_text) new = map el_text (filter admitted elems)"
  using assms
proof (induction elems arbitrary: st q)
  case Nil
  then show ?case by simp
next
  case (Cons element rest)
  show ?case
  proof (cases "admitted element")
    case False
    with Cons.IH [OF Cons.prems] show ?thesis by (auto simp: admitted_def)
  next
    case True
    define item where
      "item = make_item element fullResponse url (uuid (uuidCalls st)) nodeId parent"
    define st1 where
      "st1 = st\<lparr>exploreQueue := (exploreQueue st)(url \<mapsto> q @ [item]),
                uuidCalls := Suc (uuidCalls st)\<rparr>"
    have q1: "exploreQueue st1 url = Some (q @ [item])" by (simp add: st1_def)
    from Cons.IH [OF q1] obtain st' new where
      r: "handleQueueUpdate uuid rest fullResponse url nodeId parent st1 = Inr st'"
      and e: "exploreQueue st' url = Some ((q @ [item]) @ new)"
      and p: "map q_parent new =
             map (\<lambda>it. \<lparr> p_url = or_else (map_option p_url parent) (q_url it),
                          p_nodeId = or_else (map_option p_nodeId parent) (q_nodeId it),
                          p_id = or_else (map_option p_id parent) (q_id it) \<rparr>) new"
      and i: "map q_id new = map uuid [uuidCalls st1 ..< uuidCalls st1 + length new]"
      and u: "map q_url new = replicate (length new) url"
      and n: "map q_nodeId new = replicate (length new) nodeId"
      and l: "map (Some \<circ> q_text) new = map el_text (filter admitted rest)"
      by blast
    have step: "handleQueueUpdate uuid (element # rest) fullResponse url nodeId parent st = Inr st'"
      using True Cons.prems r by (simp add: Let_def st1_def item_def admitted_def)
    have upt: "[uuidCalls st ..< uuidCalls st + length (item # new)]
                 = uuidCalls st # [uuidCalls st1 ..< uuidCalls st1 + length new]"
      using upt_shift [of "uuidCalls st" "length new"] by (simp add: st1_def del: upt_Suc)
    have ids: "map q_id (item # new)
                 = map uuid [uuidCalls st ..< uuidCalls st + length (item # new)]"
      unfolding upt using i by (simp add: item_def make_item_def)
    have "exploreQueue st' url = Some (q @ (item # new))" using e by simp
    moreover have "map q_parent (item # new) =
             map (\<lambda>it. \<lparr> p_url = or_else (map_option p_url parent) (q_url it),
                          p_nodeId = or_else (map_option p_nodeId parent) (q_nodeId it),
                          p_id = or_else (map_option p_id parent) (q_id it) \<rparr>) (item # new)"
      using p by (simp add: item_def make_item_def)
    moreover have "map q_url (item # new) = replicate (length (item # new)) url"
      using u by (simp add: item_def make_item_def)
    moreover have "map q_nodeId (item # new) = replicate (length (item # new)) nodeId"
      using n by (simp add: item_def make_item_def)
    moreover have "map (Some \<circ> q_text) (item # new)
                     = map el_text (filter admitted (element # rest))"
      using l True
      by (cases "el_text element") (simp_all add: item_def make_item_def admitted_def)
    ultimately show ?thesis using step ids by blast
  qed
qed

text \<open>
  C10. When \<open>handleQueueUpdate\<close> is given no parent, every frontier item it appends to
  the queue of the route is its own parent: the parent's URL is the item's URL, the
  parent's node id is the item's node id, and the parent's id is the element id freshly
  drawn from \<open>uuid()\<close> for that very item. One item is appended per admitted element,
  in order, and the update does not fail when the route has a queue.
\<close>

theorem handleQueueUpdate_self_parent:
  assumes "exploreQueue st url = Some q"
  shows "\<exists>st' new.
           handleQueueUpdate uuid elems fullResponse url nodeId None st = Inr st'
         \<and> exploreQueue st' url = Some (q @ new)
         \<and> map q_parent new =
             map (\<lambda>it. \<lparr> p_url = q_url it, p_nodeId = q_nodeId it, p_id = q_id it \<rparr>) new
         \<and> map q_id new = map uuid [uuidCalls st ..< uuidCalls st + length new]
         \<and> map q_url new = replicate (length new) url
         \<and> map q_nodeId new = replicate (length new) nodeId
         \<and> map (Some \<circ> q_text) new = map el_text (filter admitted elems)"
  using handleQueueUpdate_appends [OF assms, of uuid elems fullResponse nodeId None]
  by simp

theorem handleQueueUpdate_self_parent_witness:
  "exploreQueue queued_state ''https://x/a'' = Some []
   \<and> (\<exists>st' new.
        handleQueueUpdate uuid0 [login_element, signup_element] ''r'' ''https://x/a'' ''n'' None
          queued_state = Inr st'
      \<and> exploreQueue st' ''https://x/a'' = Some new
      \<and> map q_parent new =
          map (\<lambda>it. \<lparr> p_url = q_url it, p_nodeId = q_nodeId it, p_id = q_id it \<rparr>) new
      \<and> map q_id new = [''id-'', ''id-i'']
      \<and> map q_text new = [''Login'', ''Signup''])"
proof -
  have h: "exploreQueue queued_state ''https://x/a'' = Some []"
    by (simp add: queued_state_def)
  have u: "uuidCalls queued_state = 0"
    by (simp add: queued_state_def initial_state_def)
  from handleQueueUpdate_self_parent [OF h, of uuid0 "[login_element, signup_element]" "''r''" "''n''"]
  obtain st' new where
    r: "handleQueueUpdate uuid0 [login_element, signup_element] ''r'' ''https://x/a'' ''n'' None
          queued_state = Inr st'"
    and q: "exploreQueue st' ''https://x/a'' = Some ([] @ new)"
    and p: "map q_parent new =
          map (\<lambda>it. \<lparr> p_url = q_url it, p_nodeId = q_nodeId it, p_id = q_id it \<rparr>) new"
    and i: "map q_id new = map uuid0 [uuidCalls queued_state ..< uuidCalls queued_state + length new]"
    and t: "map (Some \<circ> q_text) new
              = map el_text (filter admitted [login_element, signup_element])"
    by blast
  have t': "map (Some \<circ> q_text) new = [Some ''Login'', Some ''Signup'']"
    using t by (simp add: admitted_def login_element_def signup_element_def)
  then have len: "length new = 2"
    by (metis length_map length_Cons list.size(3) numeral_2_eq_2)
  have "map q_id new = [''id-'', ''id-i'']"
    using i unfolding len u by (simp add: uuid0_def upt_rec numeral_2_eq_2)
  moreover have "map q_text new = [''Login'', ''Signup'']"
    using t' by (auto simp: map_eq_Cons_conv)
  ultimately show ?thesis using h r q p by auto
qed

subsection \<open>A turn without a current URL\<close>

text \<open>
  C8. If the query for the current URL yields nothing, \<open>processExploreOutput\<close> returns
  without a result and leaves the whole state as it was: no node, no edge, the frontier
  and the visited routes unchanged. The frontend's \<open>getCurrentUrl\<close> yields nothing when
  the request fails (\<open>null\<close>) or the reply carries no or an empty URL; the backend's
  \<open>getCurrentUrlBasedOnSource\<close> sends the empty URL when the browser is not ready or
  one of the two driver calls throws. The query is only made when the turn carries
  elements; for a turn without elements the same holds as long as the visited routes
  are without repetition.
\<close>

theorem no_url_no_mutation:
  assumes "\<not> truthy (getCurrentUrl reply)"
      and "elems \<noteq> [] \<or> distinct (exploreRoute st)"
  shows "processExploreOutput norm uuid elems fullResponse parent (getCurrentUrl reply)
           imageData st = Inr (None, st)
       \<and> getCurrentUrlBasedOnSource ''chrome-puppeteer'' (Inr False) puppeteerUrl = []
       \<and> getCurrentUrlBasedOnSource ''chrome-puppeteer'' (Inl e) puppeteerUrl = []
       \<and> getCurrentUrlBasedOnSource ''chrome-puppeteer'' (Inr True) (Inl e) = []"
  using assms
  by (auto simp: processExploreOutput_def cleanCompletedQueue_def new_Set_distinct Let_def
        getCurrentUrlBasedOnSource_def)

theorem no_url_no_mutation_witness:
  "\<not> truthy (getCurrentUrl (Inr (Some []))) \<and> \<not> truthy (getCurrentUrl (Inl (Error ''fetch'')))
   \<and> [login_element] \<noteq> []
   \<and> processExploreOutput (\<lambda>u. u) uuid0 [login_element] ''r'' None
        (getCurrentUrl (Inr (Some (getCurrentUrlBasedOnSource ''chrome-puppeteer'' (Inr False)
           (Inr ''https://x/a''))))) None queued_state
       = Inr (None, queued_state)
   \<and> processExploreOutput (\<lambda>u. u) uuid0 [login_element] ''r'' None
        (getCurrentUrl (Inl (Error ''fetch''))) None queued_state
       = Inr (None, queued_state)"
proof -
  have h1: "\<not> truthy (getCurrentUrl (Inr (Some [])))"
    and h2: "\<not> truthy (getCurrentUrl (Inl (Error ''fetch'')))"
    by (simp_all add: getCurrentUrl_def)
  have h3: "[login_element] \<noteq> [] \<or> distinct (exploreRoute queued_state)" by simp
  have b: "getCurrentUrlBasedOnSource ''chrome-puppeteer'' (Inr False) (Inr ''https://x/a'') = []"
    by (simp add: getCurrentUrlBasedOnSource_def)
  show ?thesis
    using h1 h2 no_url_no_mutation [OF h1 h3, of "\<lambda>u. u" uuid0 "''r''" None None]
          no_url_no_mutation [OF h2 h3, of "\<lambda>u. u" uuid0 "''r''" None None]
    by (simp add: b)
qed

subsection \<open>Admission control\<close>

lemma handleExploreMessage_sets_guard:
  "isProcessing (handleExploreMessage messageId currentMessage type imageData st)"
  by (simp add: handleExploreMessage_def)

lemma handleExploreMessage_calls:
  "length (modelCalls (handleExploreMessage messageId currentMessage type imageData st))
     \<le> Suc (length (modelCalls st))"
  by (simp add: handleExploreMessage_def)

lemma guarded_requests_noop:
  "isProcessing st \<Longrightarrow> foldl (\<lambda>s (m, c, t, i). handleExploreMessage m c t i s) st reqs = st"
  by (induction reqs) (auto simp: handleExploreMessage_def)

text \<open>
  C5. While the guard \<open>isProcessing\<close> is set, a request to start a turn through
  \<open>handleExploreMessage\<close> returns at once: the state is unchanged, in particular no
  model call is added to the outstanding ones and nothing is queued for later, however
  many such requests arrive. So any number of start requests in a row, from any state,
  hand at most one call to the model.
\<close>

theorem second_start_is_noop:
  assumes "isProcessing st"
  shows "handleExploreMessage messageId currentMessage type imageData st = st
       \<and> foldl (\<lambda>s (m, c, t, i). handleExploreMessage m c t i s) st reqs = st
       \<and> length (modelCalls (foldl (\<lambda>s (m, c, t, i). handleExploreMessage m c t i s) st' reqs))
            \<le> Suc (length (modelCalls st'))"
proof (intro conjI)
  show "handleExploreMessage messageId currentMessage type imageData st = st"
    using assms by (simp add: handleExploreMessage_def)
  show "foldl (\<lambda>s (m, c, t, i). handleExploreMessage m c t i s) st reqs = st"
    using assms by (rule guarded_requests_noop)
  show "length (modelCalls (foldl (\<lambda>s (m, c, t, i). handleExploreMessage m c t i s) st' reqs))
            \<le> Suc (length (modelCalls st'))"
  proof (cases reqs)
    case Nil
    then show ?thesis by simp
  next
    case (Cons req rest)
    obtain m c t i where req: "req = (m, c, t, i)" by (cases req) auto
    have "foldl (\<lambda>s (m, c, t, i). handleExploreMessage m c t i s) st' reqs
            = handleExploreMessage m c t i st'"
      using guarded_requests_noop [OF handleExploreMessage_sets_guard, of m c t i st' rest]
      by (simp add: Cons req)
    then show ?thesis by (simp add: handleExploreMessage_calls)
  qed
qed

theorem second_start_is_noop_witness:
  "isProcessing (handleExploreMessage ''msg_1'' ''explore'' ''explore'' None initial_state)
   \<and> modelCalls (handleExploreMessage ''msg_2'' ''again'' ''action'' None
        (handleExploreMessage ''msg_1'' ''explore'' ''explore'' None initial_state))
     = [\<lparr> mc_messageId = ''msg_1'', mc_message = ''explore'', mc_type = ''explore'',
          mc_image = None \<rparr>]"
proof -
  have h: "isProcessing (handleExploreMessage ''msg_1'' ''explore'' ''explore'' None initial_state)"
    by (simp add: handleExploreMessage_def initial_state_def)
  have c: "modelCalls (handleExploreMessage ''msg_1'' ''explore'' ''explore'' None initial_state)
     = [\<lparr> mc_messageId = ''msg_1'', mc_message = ''explore'', mc_type = ''explore'',
          mc_image = None \<rparr>]"
    by (simp add: handleExploreMessage_def initial_state_def)
  show ?thesis
    using h c second_start_is_noop [OF h, of "''msg_2''" "''again''" "''action''" None "[]"
            initial_state]
    by simp
qed

subsection \<open>Nodes and edges\<close>

lemma createEdge_frame:
  "graph_edges (createEdge s t e l st) = graph_edges st @
      [\<lparr> e_id = e, e_source = s, e_target = t, e_sourceHandle = e, e_type = ''bezier'', e_label = l \<rparr>]"
  "map n_id (graph_nodes (createEdge s t e l st)) = map n_id (graph_nodes st)"
  "map n_label (graph_nodes (createEdge s t e l st)) = map n_label (graph_nodes st)"
  "exploreQueue (createEdge s t e l st) = exploreQueue st"
  "exploreRoute (createEdge s t e l st) = exploreRoute st"
  "currentlyExploring (createEdge s t e l st) = currentlyExploring st"
  "uuidCalls (createEdge s t e l st) = uuidCalls st"
  by (simp_all add: createEdge_def comp_def)

lemma createEdgeOrNode_Nil [simp]: "createEdgeOrNode norm [] url = CreateNode"
  by (simp add: createEdgeOrNode_def)

lemma handleEdgeAndNodeCreation_char:
  assumes "handleEdgeAndNodeCreation norm uuid url imageData st = (nodeId, st')"
  shows "nodeId = (case createEdgeOrNode norm (graph_nodes st) url of
                     CreateNode \<Rightarrow> uuid (uuidCalls st) | Existing node \<Rightarrow> n_id node)"
    and "graph_edges st' = graph_edges st @
           (case currentlyExploring st of None \<Rightarrow> [] | Some ce \<Rightarrow> [edge_for ce nodeId])"
    and "map n_id (graph_nodes st') = map n_id (graph_nodes st) @
           (case createEdgeOrNode norm (graph_nodes st) url of
              CreateNode \<Rightarrow> [nodeId] | Existing node \<Rightarrow> [])"
    and "map n_label (graph_nodes st') = map n_label (graph_nodes st) @
           (case createEdgeOrNode norm (graph_nodes st) url of
              CreateNode \<Rightarrow> [url] | Existing node \<Rightarrow> [])"
    and "exploreQueue st' = exploreQueue st"
    and "exploreRoute st' = exploreRoute st"
    and "currentlyExploring st' = currentlyExploring st"
  using assms
  by (auto simp: handleEdgeAndNodeCreation_def Let_def createEdge_frame createConstructNode_def
       edge_for_def comp_def split: node_lookup.splits option.splits if_splits prod.splits)

text \<open>What the discovery of a page that is not yet a route does, in one statement.\<close>

lemma processExploreOutput_new_page:
  assumes t: "truthy urlReply" and e: "elems \<noteq> []"
      and n: "the urlReply \<notin> set (exploreRoute st)"
  shows "\<exists>st' new.
           processExploreOutput norm uuid elems fullResponse parent urlReply imageData st
             = Inr (Some (hd elems), st')
         \<and> graph_edges st' = graph_edges st @
             (case currentlyExploring st of
                None \<Rightarrow> []
              | Some ce \<Rightarrow>
                  [edge_for ce (case createEdgeOrNode norm (graph_nodes st) (the urlReply) of
                                  CreateNode \<Rightarrow> uuid (uuidCalls st)
                                | Existing node \<Rightarrow> n_id node)])
         \<and> map n_id (graph_nodes st') = map n_id (graph_nodes st) @
             (case createEdgeOrNode norm (graph_nodes st) (the urlReply) of
                CreateNode \<Rightarrow> [uuid (uuidCalls st)] | Existing node \<Rightarrow> [])
         \<and> map n_label (graph_nodes st') = map n_label (graph_nodes st) @
             (case createEdgeOrNode norm (graph_nodes st) (the urlReply) of
                CreateNode \<Rightarrow> [the urlReply] | Existing node \<Rightarrow> [])
         \<and> exploreRoute st' = new_Set (exploreRoute st) @ [the urlReply]
         \<and> exploreQueue st' = (exploreQueue st)(the urlReply \<mapsto> new)
         \<and> map (Some \<circ> q_text) new = map el_text (filter admitted elems)
         \<and> currentlyExploring st' = currentlyExploring st"
proof -
  define url where "url = the urlReply"
  define st1 where "st1 = st\<lparr>exploreQueue := (exploreQueue st)(url \<mapsto> [])\<rparr>"
  obtain nodeId st2 where h: "handleEdgeAndNodeCreation norm uuid url imageData st1 = (nodeId, st2)"
    by (cases "handleEdgeAndNodeCreation norm uuid url imageData st1") auto
  note c = handleEdgeAndNodeCreation_char [OF h]
  have q2: "exploreQueue st2 url = Some []" using c(5) by (simp add: st1_def)
  from handleQueueUpdate_appends [OF q2, of uuid elems fullResponse nodeId parent]
  obtain st3 new where
    r: "handleQueueUpdate uuid elems fullResponse url nodeId parent st2 = Inr st3"
    and q3: "exploreQueue st3 url = Some ([] @ new)"
    and tx: "map (Some \<circ> q_text) new = map el_text (filter admitted elems)"
    by blast
  note f = handleQueueUpdate_frame [OF r]
  define st' where "st' = st3\<lparr>exploreRoute := set_add (new_Set (exploreRoute st)) url\<rparr>"
  have nin: "url \<notin> set (new_Set (exploreRoute st))"
    using n by (simp add: set_new_Set url_def)
  have res: "processExploreOutput norm uuid elems fullResponse parent urlReply imageData st
             = Inr (Some (hd elems), st')"
    using t e nin h r
    by (simp add: processExploreOutput_def cleanCompletedQueue_def Let_def url_def [symmetric]
          st1_def [symmetric] st'_def)
  have qq: "exploreQueue st' = (exploreQueue st)(url \<mapsto> new)"
  proof
    fix k show "exploreQueue st' k = ((exploreQueue st)(url \<mapsto> new)) k"
      using f q3 c(5) by (cases "k = url") (simp_all add: st'_def st1_def)
  qed
  have "graph_edges st' = graph_edges st @
          (case currentlyExploring st of None \<Rightarrow> [] | Some ce \<Rightarrow> [edge_for ce nodeId])"
    using f c(2) by (simp add: st'_def st1_def)
  moreover have "nodeId = (case createEdgeOrNode norm (graph_nodes st) url of
                     CreateNode \<Rightarrow> uuid (uuidCalls st) | Existing node \<Rightarrow> n_id node)"
    using c(1) by (simp add: st1_def split: node_lookup.splits)
  moreover have "map n_id (graph_nodes st') = map n_id (graph_nodes st) @
           (case createEdgeOrNode norm (graph_nodes st) url of
              CreateNode \<Rightarrow> [nodeId] | Existing node \<Rightarrow> [])"
    using f c(3) by (simp add: st'_def st1_def)
  moreover have "map n_label (graph_nodes st') = map n_label (graph_nodes st) @
           (case createEdgeOrNode norm (graph_nodes st) url of
              CreateNode \<Rightarrow> [url] | Existing node \<Rightarrow> [])"
    using f c(4) by (simp add: st'_def st1_def)
  moreover have "exploreRoute st' = new_Set (exploreRoute st) @ [url]"
    using nin by (simp add: st'_def set_add_def)
  moreover have "currentlyExploring st' = currentlyExploring st"
    using f c(7) by (simp add: st'_def st1_def)
  ultimately show ?thesis
    using res qq tx unfolding url_def [symmetric]
    by (auto split: node_lookup.splits option.splits)
qed

subsection \<open>The frontier in reachable states\<close>

lemma frontier_inv_initial: "frontier_inv initial_state"
  by (simp add: frontier_inv_def initial_state_def)

lemma getNextToExplore_char:
  assumes "frontier_inv st"
  shows "(exploreRoute st = [] \<and> getNextToExplore st = Inr (None, st))
       \<or> (\<exists>route others q. exploreRoute st = route # others \<and> exploreQueue st route = Some q
            \<and> getNextToExplore st =
                (case q of
                   [] \<Rightarrow> Inr (None, st)
                 | nextItem # remaining \<Rightarrow>
                     Inr (Some nextItem,
                          st\<lparr>exploreQueue := (exploreQueue st)(route \<mapsto> remaining),
                             currentlyExploring :=
                               Some \<lparr> c_url = route, c_id = q_id nextItem,
                                      c_nodeId = q_nodeId nextItem,
                                      c_label = q_text nextItem \<rparr>\<rparr>)))"
proof (cases "exploreRoute st")
  case Nil
  then show ?thesis by (simp add: getNextToExplore_def)
next
  case (Cons route others)
  with assms obtain q where q: "exploreQueue st route = Some q" and ne: "route \<noteq> []"
    by (auto simp: frontier_inv_def)
  have "getNextToExplore st =
                (case q of
                   [] \<Rightarrow> Inr (None, st)
                 | nextItem # remaining \<Rightarrow>
                     Inr (Some nextItem,
                          st\<lparr>exploreQueue := (exploreQueue st)(route \<mapsto> remaining),
                             currentlyExploring :=
                               Some \<lparr> c_url = route, c_id = q_id nextItem,
                                      c_nodeId = q_nodeId nextItem,
                                      c_label = q_text nextItem \<rparr>\<rparr>))"
    using Cons q ne by (simp add: getNextToExplore_def split: list.splits)
  with Cons q show ?thesis by blast
qed

lemma truthy_iff: "truthy x \<longleftrightarrow> x \<notin> {None, Some []}"
  by (cases x rule: truthy.cases) simp_all

lemma step_Dequeue_refines:
  assumes "frontier_inv st"
  shows "\<exists>st'. step norm uuid Dequeue st = Inr st' \<and> frontier_inv st'
              \<and> frontier_of st' = frontier_step Dequeue (frontier_of st)"
proof (cases "exploreRoute st")
  case Nil
  then show ?thesis using assms by (simp add: getNextToExplore_def frontier_of_def)
next
  case (Cons route others)
  with assms obtain q where q: "exploreQueue st route = Some q" and ne: "route \<noteq> []"
    by (auto simp: frontier_inv_def)
  show ?thesis
  proof (cases q)
    case Nil
    then show ?thesis using Cons q ne assms
      by (auto simp add: getNextToExplore_def frontier_of_def fun_eq_iff)
  next
    case (Cons nextItem remaining)
    then show ?thesis using \<open>exploreRoute st = route # others\<close> q ne assms
      by (auto simp: getNextToExplore_def frontier_inv_def frontier_of_def fun_eq_iff)
  qed
qed

lemma step_Discover_refines:
  assumes inv: "frontier_inv st"
  shows "\<exists>st'. step norm uuid (Discover elems fullResponse urlReply imageData) st = Inr st'
               \<and> frontier_inv st'
               \<and> frontier_of st' =
                   frontier_step (Discover elems fullResponse urlReply imageData) (frontier_of st)"
proof -
  have d: "new_Set (exploreRoute st) = exploreRoute st"
    using inv by (simp add: frontier_inv_def new_Set_distinct)
  consider (none) "elems = []" | (nourl) "elems \<noteq> []" "\<not> truthy urlReply"
    | (old) "elems \<noteq> []" "truthy urlReply" "the urlReply \<in> set (exploreRoute st)"
    | (new) "elems \<noteq> []" "truthy urlReply" "the urlReply \<notin> set (exploreRoute st)"
    by blast
  then show ?thesis
  proof cases
    case none
    then show ?thesis using inv
      by (simp add: processExploreOutput_def cleanCompletedQueue_def d Let_def frontier_of_def)
  next
    case nourl
    then show ?thesis using inv
      by (simp add: processExploreOutput_def cleanCompletedQueue_def d Let_def frontier_of_def
            truthy_iff)
  next
    case old
    then show ?thesis using inv
      by (simp add: processExploreOutput_def cleanCompletedQueue_def d Let_def frontier_of_def)
  next
    case new
    from processExploreOutput_new_page [OF new(2) new(1) new(3),
           of norm uuid fullResponse "parent_of (currentlyExploring st)" imageData]
    obtain st' items where
      r: "processExploreOutput norm uuid elems fullResponse (parent_of (currentlyExploring st))
            urlReply imageData st = Inr (Some (hd elems), st')"
      and ro: "exploreRoute st' = new_Set (exploreRoute st) @ [the urlReply]"
      and qu: "exploreQueue st' = (exploreQueue st)(the urlReply \<mapsto> items)"
      and tx: "map (Some \<circ> q_text) items = map el_text (filter admitted elems)"
      by blast
    have ne: "the urlReply \<noteq> []" using new(2) by (cases urlReply) auto
    have i: "frontier_inv st'"
      using inv new(3) ne by (auto simp: frontier_inv_def ro qu d)
    have "map the (map (Some \<circ> q_text) items) = map the (map el_text (filter admitted elems))"
      using tx by simp
    then have texts: "map q_text items = map (\<lambda>e. the (el_text e)) (filter admitted elems)"
      by (simp add: comp_def)
    have "frontier_of st' =
            frontier_step (Discover elems fullResponse urlReply imageData) (frontier_of st)"
      using new by (simp add: frontier_of_def ro qu d texts fun_eq_iff truthy_iff)
    with r i show ?thesis by simp
  qed
qed

lemma step_refines:
  "frontier_inv st \<Longrightarrow>
     \<exists>st'. step norm uuid ev st = Inr st' \<and> frontier_inv st'
          \<and> frontier_of st' = frontier_step ev (frontier_of st)"
  by (cases ev) (simp_all only: step_Discover_refines step_Dequeue_refines)

lemma run_refines:
  "frontier_inv st \<Longrightarrow>
     \<exists>st'. run norm uuid evs st = Inr st' \<and> frontier_inv st'
          \<and> frontier_of st' = frontier_after evs (frontier_of st)"
proof (induction evs arbitrary: st)
  case Nil
  then show ?case by simp
next
  case (Cons ev evs)
  from step_refines [OF Cons.prems, of norm uuid ev] obtain st1 where
    "step norm uuid ev st = Inr st1" "frontier_inv st1"
    "frontier_of st1 = frontier_step ev (frontier_of st)" by blast
  with Cons.IH [of st1] show ?case by simp
qed

lemma frontier_of_initial: "frontier_of initial_state = ([], \<lambda>r. [])"
  by (simp add: frontier_of_def initial_state_def)

lemma oldest_pending_of:
  assumes "frontier_inv st"
  shows "map_sum id (map_option q_text \<circ> fst) (getNextToExplore st)
           = Inr (oldest_pending (frontier_of st))"
proof (cases "exploreRoute st")
  case Nil
  then show ?thesis by (simp add: getNextToExplore_def frontier_of_def)
next
  case (Cons route others)
  with assms obtain q where q: "exploreQueue st route = Some q" and ne: "route \<noteq> []"
    by (auto simp: frontier_inv_def)
  then show ?thesis using Cons
    by (cases q) (simp_all add: getNextToExplore_def frontier_of_def)
qed

text \<open>
  C1 (as the code has it). After any sequence of discoveries and dequeues the session
  has not failed, and its frontier is the one the sequence describes: \<open>exploreRoute\<close>
  holds the routes in the order of their first discovery, and the queue of each route
  holds the elements enqueued at its discovery, in that order, less those dequeued.
  \<open>getNextToExplore\<close> looks at the first visited route only: if that route's queue is
  non-empty, its oldest item is popped and returned (first in, first out) and recorded
  as the item being explored, so no item of a later route is ever returned while an
  earlier route has items; if that queue is empty, or there is no route, nothing is
  returned and the state is unchanged, whatever later routes hold.
\<close>

theorem dequeue_first_route_only:
  "\<exists>st. run norm uuid evs initial_state = Inr st
      \<and> frontier_of st = frontier_after evs ([], \<lambda>r. [])
      \<and> map_sum id (map_option q_text \<circ> fst) (getNextToExplore st)
          = Inr (oldest_pending (frontier_after evs ([], \<lambda>r. [])))
      \<and> ((exploreRoute st = [] \<and> getNextToExplore st = Inr (None, st))
       \<or> (\<exists>route others q. exploreRoute st = route # others \<and> exploreQueue st route = Some q
            \<and> getNextToExplore st =
                (case q of
                   [] \<Rightarrow> Inr (None, st)
                 | nextItem # remaining \<Rightarrow>
                     Inr (Some nextItem,
                          st\<lparr>exploreQueue := (exploreQueue st)(route \<mapsto> remaining),
                             currentlyExploring :=
                               Some \<lparr> c_url = route, c_id = q_id nextItem,
                                      c_nodeId = q_nodeId nextItem,
                                      c_label = q_text nextItem \<rparr>\<rparr>))))"
proof -
  from run_refines [OF frontier_inv_initial, of norm uuid evs] obtain st where
    r: "run norm uuid evs initial_state = Inr st" and i: "frontier_inv st"
    and f: "frontier_of st = frontier_after evs ([], \<lambda>r. [])"
    by (auto simp: frontier_of_initial)
  from getNextToExplore_char [OF i] oldest_pending_of [OF i] r f show ?thesis
    by (simp only: ex_simps) blast
qed



text \<open>
  C1 as stated fails. Page \<open>a\<close> is discovered with one element, the element is dequeued,
  page \<open>b\<close> is discovered with one element. The oldest route that still has items is
  \<open>b\<close>, yet the dequeue returns nothing: route \<open>a\<close> stays first although it is empty.
\<close>

theorem dequeue_skips_later_routes_counterexample:
  "run exact_url uuid0 stalled_events initial_state = Inr stalled_state
   \<and> exploreRoute stalled_state = [''https://x/a'', ''https://x/b'']
   \<and> exploreQueue stalled_state ''https://x/a'' = Some []
   \<and> map_option (map q_text) (exploreQueue stalled_state ''https://x/b'') = Some [''Signup'']
   \<and> map_sum id fst (getNextToExplore stalled_state) = Inr None"
  by (simp add: stalled_state_def exact_url_def stalled_events_def initial_state_def
        processExploreOutput_def
        cleanCompletedQueue_def new_Set_def set_add_def handleEdgeAndNodeCreation_def
        createEdgeOrNode_def createConstructNode_def createEdge_def getNextToExplore_def
        parent_of_def make_item_def login_element_def signup_element_def uuid0_def Let_def)

subsection \<open>Repeated discovery of a page\<close>

lemma find_append_first:
  "find P (xs @ ys) = (case find P xs of None \<Rightarrow> find P ys | Some x \<Rightarrow> Some x)"
  by (induction xs) auto

lemma find_label_id:
  "map_option n_id (find (\<lambda>node. P (n_label node)) nodes)
     = map_option fst (find (\<lambda>p. P (snd p)) (zip (map n_id nodes) (map n_label nodes)))"
  by (induction nodes) auto

lemma count_label:
  "length (filter (\<lambda>node. P (n_label node)) nodes) = length (filter P (map n_label nodes))"
  by (induction nodes) auto

lemma find_Some_count:
  "find P xs = Some x \<Longrightarrow> 1 \<le> length (filter P xs)"
  by (induction xs) (auto split: if_splits)

lemma find_None_count:
  "find P xs = None \<Longrightarrow> length (filter P xs) = 0"
  by (induction xs) (auto split: if_splits)

lemma upsert_twice:
  assumes first: "handleEdgeAndNodeCreation norm uuid url imageData st = (id1, st1)"
      and nodes: "graph_nodes st1' = graph_nodes st1"
      and second: "handleEdgeAndNodeCreation norm uuid url' imageData' st1' = (id2, st2)"
      and same: "norm url' = norm url"
      and atmost: "length (filter (\<lambda>node. norm (n_label node) = norm url) (graph_nodes st)) \<le> 1"
  shows "id2 = id1"
    and "length (filter (\<lambda>node. norm (n_label node) = norm url) (graph_nodes st2)) = 1"
    and "map n_id (graph_nodes st2) = map n_id (graph_nodes st1)"
proof -
  let ?P = "\<lambda>l. norm l = norm url"
  note c1 = handleEdgeAndNodeCreation_char [OF first]
  note c2 = handleEdgeAndNodeCreation_char [OF second]
  have lookup: "createEdgeOrNode norm ns url' = createEdgeOrNode norm ns url" for ns
    by (simp add: createEdgeOrNode_def same)
  have found: "\<exists>node. createEdgeOrNode norm (graph_nodes st1) url = Existing node \<and> n_id node = id1"
            and one: "length (filter ?P (map n_label (graph_nodes st1))) = 1"
  proof -
    show "\<exists>node. createEdgeOrNode norm (graph_nodes st1) url = Existing node \<and> n_id node = id1"
    proof (cases "find (\<lambda>node. ?P (n_label node)) (graph_nodes st)")
      case None
      then have cn: "createEdgeOrNode norm (graph_nodes st) url = CreateNode"
        by (simp add: createEdgeOrNode_def)
      have z: "find (\<lambda>p. ?P (snd p)) (zip (map n_id (graph_nodes st)) (map n_label (graph_nodes st))) = None"
        using find_label_id [of ?P "graph_nodes st"] None by simp
      have "map_option n_id (find (\<lambda>node. ?P (n_label node)) (graph_nodes st1))
              = map_option fst (find (\<lambda>p. ?P (snd p))
                  (zip (map n_id (graph_nodes st1)) (map n_label (graph_nodes st1))))"
        using find_label_id [of ?P "graph_nodes st1"] .
      also have "\<dots> = Some id1"
        using c1(3) c1(4) cn z by (simp add: find_append_first)
      finally have "map_option n_id (find (\<lambda>node. ?P (n_label node)) (graph_nodes st1)) = Some id1" .
      then show ?thesis by (auto simp: createEdgeOrNode_def split: option.splits)
    next
      case (Some node)
      then have ex: "createEdgeOrNode norm (graph_nodes st) url = Existing node"
        by (simp add: createEdgeOrNode_def)
      have "map_option n_id (find (\<lambda>node. ?P (n_label node)) (graph_nodes st1))
              = map_option n_id (find (\<lambda>node. ?P (n_label node)) (graph_nodes st))"
        using find_label_id [of ?P "graph_nodes st1"] find_label_id [of ?P "graph_nodes st"]
              c1(3) c1(4) ex by simp
      then have "map_option n_id (find (\<lambda>node. ?P (n_label node)) (graph_nodes st1)) = Some id1"
        using Some c1(1) ex by simp
      then show ?thesis by (auto simp: createEdgeOrNode_def split: option.splits)
    qed
    show "length (filter ?P (map n_label (graph_nodes st1))) = 1"
    proof (cases "find (\<lambda>node. ?P (n_label node)) (graph_nodes st)")
      case None
      then have cn: "createEdgeOrNode norm (graph_nodes st) url = CreateNode"
        by (simp add: createEdgeOrNode_def)
      from find_None_count [OF None] count_label [of ?P "graph_nodes st"]
      have "length (filter ?P (map n_label (graph_nodes st))) = 0"
        by simp
      then show ?thesis using c1(4) cn by simp
    next
      case (Some node)
      then have ex: "createEdgeOrNode norm (graph_nodes st) url = Existing node"
        by (simp add: createEdgeOrNode_def)
      from find_Some_count [OF Some] atmost count_label [of ?P "graph_nodes st"]
      have "length (filter ?P (map n_label (graph_nodes st))) = 1"
        by simp
      then show ?thesis using c1(4) ex by simp
    qed
  qed
  from found obtain node where
    ex: "createEdgeOrNode norm (graph_nodes st1') url' = Existing node" and nid: "n_id node = id1"
    using lookup nodes by auto
  show "id2 = id1" using c2(1) ex nid by simp
  show "map n_id (graph_nodes st2) = map n_id (graph_nodes st1)"
    using c2(3) ex nodes by simp
  show "length (filter (\<lambda>node. norm (n_label node) = norm url) (graph_nodes st2)) = 1"
    using c2(4) ex nodes one count_label [of ?P "graph_nodes st2"] by simp
qed

lemma scenario_state_fields:
  "exploreRoute scenario_state = [''https://x/a'']"
  "map n_label (graph_nodes scenario_state) = [''https://x/a'']"
  "map n_id (graph_nodes scenario_state) = [''id-'']"
  "graph_edges scenario_state = []"
  "uuidCalls scenario_state = 2"
  "currentlyExploring scenario_state =
     Some \<lparr> c_url = ''https://x/a'', c_id = ''id-i'', c_nodeId = ''id-'', c_label = ''Login'' \<rparr>"
  by (simp_all add: scenario_state_def scenario_events_def initial_state_def
        processExploreOutput_def
        cleanCompletedQueue_def new_Set_def set_add_def handleEdgeAndNodeCreation_def
        createEdgeOrNode_def createConstructNode_def createEdge_def getNextToExplore_def
        parent_of_def make_item_def login_element_def signup_element_def uuid0_def Let_def)


text \<open>
  C6. Two calls of \<open>handleEdgeAndNodeCreation\<close> with URLs that normalise to the same
  string return the same node id, and afterwards the graph has exactly one node for
  that URL: the second call adds no node. The graph is assumed to start with at most
  one node for the URL, as every graph built by these calls has.
\<close>

theorem upsert_idempotent:
  assumes "norm url' = norm url"
      and "length (filter (\<lambda>node. norm (n_label node) = norm url) (graph_nodes st)) \<le> 1"
  shows "(let (id1, st1) = handleEdgeAndNodeCreation norm uuid url imageData st;
              (id2, st2) = handleEdgeAndNodeCreation norm uuid url' imageData' st1
          in id2 = id1
           \<and> length (filter (\<lambda>node. norm (n_label node) = norm url) (graph_nodes st2)) = 1
           \<and> map n_id (graph_nodes st2) = map n_id (graph_nodes st1))"
proof -
  obtain id1 st1 where a: "handleEdgeAndNodeCreation norm uuid url imageData st = (id1, st1)"
    by (cases "handleEdgeAndNodeCreation norm uuid url imageData st") auto
  obtain id2 st2 where b: "handleEdgeAndNodeCreation norm uuid url' imageData' st1 = (id2, st2)"
    by (cases "handleEdgeAndNodeCreation norm uuid url' imageData' st1") auto
  from upsert_twice [OF a refl b assms] show ?thesis
    by (simp add: a b)
qed

theorem upsert_idempotent_witness:
  "length (filter (\<lambda>node. n_label node = ''https://x/a'') (graph_nodes initial_state)) \<le> 1
   \<and> (let (id1, st1) = handleEdgeAndNodeCreation (\<lambda>u. u) uuid0 ''https://x/a'' None initial_state;
           (id2, st2) = handleEdgeAndNodeCreation (\<lambda>u. u) uuid0 ''https://x/a'' None st1
       in id1 = ''id-'' \<and> id2 = ''id-'' \<and> map n_id (graph_nodes st2) = [''id-'']
        \<and> length (filter (\<lambda>node. n_label node = ''https://x/a'') (graph_nodes st2)) = 1)"
proof -
  have h: "length (filter (\<lambda>node. (\<lambda>u. u) (n_label node) = (\<lambda>u. u) ''https://x/a'')
             (graph_nodes initial_state)) \<le> 1"
    by (simp add: initial_state_def)
  obtain id1 st1 where
    a: "handleEdgeAndNodeCreation (\<lambda>u. u) uuid0 ''https://x/a'' None initial_state = (id1, st1)"
    by (cases "handleEdgeAndNodeCreation (\<lambda>u. u) uuid0 ''https://x/a'' None initial_state") auto
  have "fst (handleEdgeAndNodeCreation (\<lambda>u. u) uuid0 ''https://x/a'' None initial_state) = ''id-''"
    and "map n_id (graph_nodes
           (snd (handleEdgeAndNodeCreation (\<lambda>u. u) uuid0 ''https://x/a'' None initial_state)))
         = [''id-'']"
    by (simp_all add: handleEdgeAndNodeCreation_def createConstructNode_def initial_state_def
          uuid0_def Let_def)
  then have i: "id1 = ''id-''" and n: "map n_id (graph_nodes st1) = [''id-'']"
    by (simp_all add: a)
  from upsert_idempotent [OF refl h, of uuid0 None None] h a i n show ?thesis
    by (auto simp: Let_def split: prod.splits)
qed

text \<open>
  C7. When a turn brings a current URL that is neither a visited route nor a node of the
  graph, one node is created for it, and the edges grow by exactly one edge if an item
  is being explored and by none otherwise. The edge runs from the node recorded for
  the item (\<open>getNextToExplore\<close> copies the item's node id, id and text into
  \<open>currentlyExploring\<close>) to the node just created, and its label is the item's text.
\<close>

theorem new_page_edge:
  assumes "truthy urlReply" and "elems \<noteq> []"
      and "the urlReply \<notin> set (exploreRoute st)"
      and "createEdgeOrNode norm (graph_nodes st) (the urlReply) = CreateNode"
  shows "\<exists>st'. processExploreOutput norm uuid elems fullResponse parent urlReply imageData st
                 = Inr (Some (hd elems), st')
       \<and> map n_id (graph_nodes st') = map n_id (graph_nodes st) @ [uuid (uuidCalls st)]
       \<and> map n_label (graph_nodes st') = map n_label (graph_nodes st) @ [the urlReply]
       \<and> graph_edges st' = graph_edges st @
           (case currentlyExploring st of
              None \<Rightarrow> []
            | Some ce \<Rightarrow> [edge_for ce (uuid (uuidCalls st))])"
  using processExploreOutput_new_page [OF assms(1-3), of norm uuid fullResponse parent imageData]
        assms(4)
  by (auto split: option.splits)

theorem new_page_edge_witness:
  "run (\<lambda>u. u) uuid0 scenario_events initial_state = Inr scenario_state
   \<and> truthy (Some ''https://x/b'') \<and> [signup_element] \<noteq> []
   \<and> ''https://x/b'' \<notin> set (exploreRoute scenario_state)
   \<and> createEdgeOrNode (\<lambda>u. u) (graph_nodes scenario_state) ''https://x/b'' = CreateNode
   \<and> (\<exists>st'. processExploreOutput (\<lambda>u. u) uuid0 [signup_element] ''r2''
                (parent_of (currentlyExploring scenario_state)) (Some ''https://x/b'') None
                scenario_state = Inr (Some signup_element, st')
          \<and> map n_label (graph_nodes st') = [''https://x/a'', ''https://x/b'']
          \<and> map n_id (graph_nodes st') = [''id-'', ''id-ii'']
          \<and> graph_edges st' =
              [\<lparr> e_id = ''id-i'', e_source = ''id-'', e_target = ''id-ii'',
                 e_sourceHandle = ''id-i'', e_type = ''bezier'', e_label = ''Login'' \<rparr>])"
proof -
  have r: "run (\<lambda>u. u) uuid0 scenario_events initial_state = Inr scenario_state"
    by (simp add: scenario_state_def scenario_events_def initial_state_def
        processExploreOutput_def
        cleanCompletedQueue_def new_Set_def set_add_def handleEdgeAndNodeCreation_def
        createEdgeOrNode_def createConstructNode_def createEdge_def getNextToExplore_def
        parent_of_def make_item_def login_element_def uuid0_def Let_def)
  have h1: "truthy (Some ''https://x/b'')" and h2: "[signup_element] \<noteq> []" by simp_all
  have h3: "the (Some ''https://x/b'') \<notin> set (exploreRoute scenario_state)"
    by (simp add: scenario_state_fields)
  have nodes: "find (\<lambda>p. snd p = ''https://x/b'')
      (zip (map n_id (graph_nodes scenario_state)) (map n_label (graph_nodes scenario_state)))
        = None"
    by (simp add: scenario_state_fields)
  have h4: "createEdgeOrNode (\<lambda>u. u) (graph_nodes scenario_state) (the (Some ''https://x/b''))
              = CreateNode"
    using find_label_id [of "\<lambda>l. l = ''https://x/b''" "graph_nodes scenario_state"] nodes
    by (simp add: createEdgeOrNode_def split: option.splits)
  have u2: "uuid0 2 = ''id-ii''" by (simp add: uuid0_def numeral_2_eq_2)
  from new_page_edge [OF h1 h2 h3 h4, of uuid0 "''r2''"
         "parent_of (currentlyExploring scenario_state)" None]
  show ?thesis
    using r h1 h3 h4
    by (auto simp add: scenario_state_fields edge_for_def signup_element_def u2)
qed


section \<open>Properties of the model session client\<close>

lemma forward_chunks_eq:
  "forward_chunks chunks res =
     res @ map (\<lambda>c. chunk_event (the (ch_delta_text c))) (filter is_text_delta chunks)"
proof (induction chunks arbitrary: res)
  case Nil
  show ?case by simp
next
  case (Cons c cs)
  have t: "truthy (ch_delta_text c) \<longleftrightarrow> ch_delta_text c \<notin> {None, Some []}"
    by (cases "ch_delta_text c" rule: truthy.cases) simp_all
  show ?case
    by (simp add: Cons.IH sendStreamResponse_def is_text_delta_def t)
qed

lemma processStream_fails:
  "attempt_fails att \<Longrightarrow>
     processStream att res imageData =
       (res @ map chunk_event (text_deltas att) @ [retry_notice], False)"
  by (cases att rule: attempt_fails.cases)
     (simp_all add: processStream_def processStreamResponse_def sendStreamResponse_def
        forward_chunks_eq [of _ res] text_deltas_def comp_def)

lemma retry_loop_all_fail:
  "list_all (\<lambda>k. attempt_fails (attempts k)) [i..<i + n] \<Longrightarrow>
     retry_loop attempts n i res imageData =
       (res @ concat (map (\<lambda>k. map chunk_event (text_deltas (attempts k)) @ [retry_notice])
                        [i..<i + n]), False)"
proof (induction n arbitrary: i res)
  case 0
  then show ?case by simp
next
  case (Suc n)
  have u: "[i..<i + Suc n] = i # [Suc i..<Suc i + n]"
    using upt_conv_Cons [of i "Suc (i + n)"] by (simp del: upt_Suc)
  from Suc.prems have f: "attempt_fails (attempts i)"
    and r: "list_all (\<lambda>k. attempt_fails (attempts k)) [Suc i..<Suc i + n]"
    unfolding u by simp_all
  show ?case
    unfolding u
    by (simp add: Suc.IH [OF r] processStream_fails [OF f] del: upt_Suc)
qed

lemma failed_rounds_counts:
  "filter (\<lambda>d. sr_isError d = Some True)
     (concat (map (\<lambda>k. map chunk_event (text_deltas (attempts k)) @ [retry_notice]) ks)) = []"
  "filter sr_isComplete
     (concat (map (\<lambda>k. map chunk_event (text_deltas (attempts k)) @ [retry_notice]) ks)) = []"
  "length (filter (\<lambda>d. sr_isError d = Some False)
     (concat (map (\<lambda>k. map chunk_event (text_deltas (attempts k)) @ [retry_notice]) ks)))
   = length ks"
  by (induction ks; simp add: retry_notice_def filter_map comp_def chunk_event_def)+

text \<open>
  C2 (as the code has it). If each of the \<open>n\<close> configured attempts fails, \<open>n\<close> is a
  length \<open>new Array\<close> accepts, and the description step before the loop does not throw,
  \<open>streamResponse\<close> makes exactly \<open>n\<close> attempts and resolves. Each failed attempt leaves
  in the response one ordinary message event for every text delta it had received before
  it failed, in the order received, followed by one notice \<open>Error processing message
  re-trying\<close> with \<open>isError: false\<close>; after the last attempt one event with
  \<open>isError: true\<close> is written. So the response holds exactly one terminal error event,
  no completion event, and \<open>n\<close> retry notices.
\<close>

theorem exhausted_retries:
  assumes "all_fail attempts n"
      and "int n \<le> 4294967295"
      and "type = EXPLORE \<longrightarrow> description = Inr described"
  shows "streamResponse attempts description res type imageData (int n) =
           (res
            @ concat (map (\<lambda>k.
                map (\<lambda>t. \<lparr> sr_message = t, sr_isComplete = False, sr_isError = None,
                            sr_imageData = None \<rparr>) (text_deltas (attempts k))
                @ [\<lparr> sr_message = ''Error processing message re-trying'',
                      sr_isComplete = False, sr_isError = Some False,
                      sr_imageData = None \<rparr>]) [0..<n])
            @ [\<lparr> sr_message = ''Error processing message. Please try again later.'',
                  sr_isComplete = False, sr_isError = Some True, sr_imageData = None \<rparr>],
            None)
       \<and> length (filter (\<lambda>d. sr_isError d = Some True)
           (fst (streamResponse attempts description [] type imageData (int n)))) = 1
       \<and> filter sr_isComplete
           (fst (streamResponse attempts description [] type imageData (int n))) = []
       \<and> length (filter (\<lambda>d. sr_isError d = Some False)
           (fst (streamResponse attempts description [] type imageData (int n)))) = n"
proof -
  have l: "retry_loop attempts n 0 r imageData =
       (r @ concat (map (\<lambda>k. map chunk_event (text_deltas (attempts k)) @ [retry_notice])
                      [0..<n]), False)" for r
    using retry_loop_all_fail [of attempts 0 n r imageData] assms(1)
    by (simp add: all_fail_def)
  have e: "streamResponse attempts description r type imageData (int n) =
           (r @ concat (map (\<lambda>k. map chunk_event (text_deltas (attempts k)) @ [retry_notice])
                          [0..<n])
              @ [terminal_error], None)" for r
    using assms(2,3)
    by (cases "type = EXPLORE") (simp_all add: streamResponse_def l sendStreamResponse_def)
  have c: "chunk_event = (\<lambda>t. \<lparr> sr_message = t, sr_isComplete = False, sr_isError = None,
                            sr_imageData = None \<rparr>)"
    by (rule ext) (simp add: chunk_event_def)
  have first: "streamResponse attempts description res type imageData (int n) =
           (res
            @ concat (map (\<lambda>k.
                map (\<lambda>t. \<lparr> sr_message = t, sr_isComplete = False, sr_isError = None,
                            sr_imageData = None \<rparr>) (text_deltas (attempts k))
                @ [\<lparr> sr_message = ''Error processing message re-trying'',
                      sr_isComplete = False, sr_isError = Some False,
                      sr_imageData = None \<rparr>]) [0..<n])
            @ [\<lparr> sr_message = ''Error processing message. Please try again later.'',
                  sr_isComplete = False, sr_isError = Some True, sr_imageData = None \<rparr>],
            None)"
    unfolding e by (simp add: c retry_notice_def terminal_error_def)
  show ?thesis
    unfolding first [symmetric]
    by (simp add: e failed_rounds_counts terminal_error_def)
qed

theorem exhausted_retries_witness:
  "all_fail failing_attempts 3
   \<and> streamResponse failing_attempts (Inr True) [] EXPLORE (None :: unit option) 3 =
       ([\<lparr> sr_message = ''Error processing message re-trying'', sr_isComplete = False,
            sr_isError = Some False, sr_imageData = None \<rparr>,
         \<lparr> sr_message = ''Hel'', sr_isComplete = False, sr_isError = None,
            sr_imageData = None \<rparr>,
         \<lparr> sr_message = ''Error processing message re-trying'', sr_isComplete = False,
            sr_isError = Some False, sr_imageData = None \<rparr>,
         \<lparr> sr_message = ''Error processing message re-trying'', sr_isComplete = False,
            sr_isError = Some False, sr_imageData = None \<rparr>,
         \<lparr> sr_message = ''Error processing message. Please try again later.'',
            sr_isComplete = False, sr_isError = Some True, sr_imageData = None \<rparr>], None)"
proof -
  have h: "all_fail failing_attempts 3"
    by (simp add: all_fail_def failing_attempts_def upt_rec numeral_3_eq_3)
  have h2: "EXPLORE = EXPLORE \<longrightarrow> Inr True = (Inr True :: js_error + bool)" by simp
  have h3: "int 3 \<le> 4294967295" by simp
  have f: "text_deltas (failing_attempts 0) = []"
          "text_deltas (failing_attempts (Suc 0)) = [''Hel'']"
          "text_deltas (failing_attempts (Suc (Suc 0))) = []"
    by (simp_all add: failing_attempts_def text_deltas_def is_text_delta_def)
  from exhausted_retries [OF h h3 h2, of "[]" "None :: unit option"] h f show ?thesis
    by (simp add: upt_rec numeral_3_eq_3)
qed

text \<open>
  C2 as stated fails in its last part. Of three failing attempts the second throws after
  the delta \<open>Hel\<close> was received: the delta stands in the response between the notices of
  the first and the second attempt, and it is the very event that an attempt which
  succeeds writes for the same delta.
\<close>

theorem failed_chunks_surface_counterexample:
  "fst (streamResponse failing_attempts (Inr False) [] ACTION (None :: unit option) 3) =
     [\<lparr> sr_message = ''Error processing message re-trying'', sr_isComplete = False,
         sr_isError = Some False, sr_imageData = None \<rparr>,
      \<lparr> sr_message = ''Hel'', sr_isComplete = False, sr_isError = None,
         sr_imageData = None \<rparr>,
      \<lparr> sr_message = ''Error processing message re-trying'', sr_isComplete = False,
         sr_isError = Some False, sr_imageData = None \<rparr>,
      \<lparr> sr_message = ''Error processing message re-trying'', sr_isComplete = False,
         sr_isError = Some False, sr_imageData = None \<rparr>,
      \<lparr> sr_message = ''Error processing message. Please try again later.'',
         sr_isComplete = False, sr_isError = Some True, sr_imageData = None \<rparr>]
   \<and> fst (streamResponse succeeding_attempts (Inr False) [] ACTION (None :: unit option) 3) =
     [\<lparr> sr_message = ''Hel'', sr_isComplete = False, sr_isError = None,
         sr_imageData = None \<rparr>,
      \<lparr> sr_message = [], sr_isComplete = True, sr_isError = None, sr_imageData = None \<rparr>]"
  by (simp add: streamResponse_def numeral_3_eq_3 processStream_def processStreamResponse_def
        failing_attempts_def succeeding_attempts_def sendStreamResponse_def retry_notice_def
        chunk_event_def complete_event_def terminal_error_def)


section \<open>Properties of the chat stream consumer\<close>

lemma chat_run_append:
  "chat_run jp (xs @ ys) st = chat_run jp ys (chat_run jp xs st)"
  by (induction xs arbitrary: st) simp_all

lemma chat_step_received:
  "hasReceivedMessage st \<and> \<not> timerPending st \<Longrightarrow>
     hasReceivedMessage (chat_step jp ev st) \<and> \<not> timerPending (chat_step jp ev st)"
  by (cases ev) (simp_all split: prod.splits)

lemma chat_run_received:
  "hasReceivedMessage st \<and> \<not> timerPending st \<Longrightarrow>
     hasReceivedMessage (chat_run jp evs st) \<and> \<not> timerPending (chat_run jp evs st)"
proof (induction evs arbitrary: st)
  case Nil
  then show ?case by simp
next
  case (Cons ev evs)
  show ?case
    using Cons.IH [OF chat_step_received [OF Cons.prems, of jp ev]] by simp
qed

lemma chat_run_done:
  "\<not> reading st \<Longrightarrow> chat_run jp (replicate k ReadDone) st = st"
  by (induction k) simp_all

text \<open>
  C9 (as the code has it). The guard is a connection timeout, armed once and disarmed by
  progress. If the timer fires before any read has returned data, the reader is cancelled
  and \<open>onError\<close> is called with the timeout error, also when the stream had already
  ended and \<open>onComplete\<close> was called. Once a read has returned data, whatever it held
  and whatever follows, the timer does nothing: the state after it fires is the state
  before.
\<close>

theorem connection_timeout_until_first_chunk:
  "sendChatMessage JSON_parse (replicate k ReadDone @ [TimerFires]) =
     \<lparr> hasReceivedMessage = False, timerPending = False, readerCancelled = True,
       reading = (k = 0),
       callbacks = (if k = 0 then [] else [OnComplete])
         @ [OnError (Error ''Connection timeout - no response received'')] \<rparr>
   \<and> chat_step JSON_parse TimerFires (sendChatMessage JSON_parse (ReadValue chunk # evs)) =
       sendChatMessage JSON_parse (ReadValue chunk # evs)"
proof -
  have a: "sendChatMessage JSON_parse (replicate k ReadDone @ [TimerFires]) =
     \<lparr> hasReceivedMessage = False, timerPending = False, readerCancelled = True,
       reading = (k = 0),
       callbacks = (if k = 0 then [] else [OnComplete])
         @ [OnError (Error ''Connection timeout - no response received'')] \<rparr>"
  proof (cases k)
    case 0
    then show ?thesis by (simp add: sendChatMessage_def)
  next
    case (Suc j)
    then show ?thesis
      by (simp add: sendChatMessage_def chat_run_append chat_run_done)
  qed
  have "hasReceivedMessage (sendChatMessage JSON_parse (ReadValue chunk # evs))
      \<and> \<not> timerPending (sendChatMessage JSON_parse (ReadValue chunk # evs))"
    unfolding sendChatMessage_def chat_run.simps
    by (rule chat_run_received) (simp split: prod.splits)
  then have b: "chat_step JSON_parse TimerFires (sendChatMessage JSON_parse (ReadValue chunk # evs)) =
       sendChatMessage JSON_parse (ReadValue chunk # evs)"
    by simp
  from a b show ?thesis by simp
qed

theorem connection_timeout_until_first_chunk_witness:
  "sendChatMessage json_hel [ReadDone, TimerFires] =
     \<lparr> hasReceivedMessage = False, timerPending = False, readerCancelled = True,
       reading = False,
       callbacks = [OnComplete, OnError (Error ''Connection timeout - no response received'')] \<rparr>
   \<and> chat_step json_hel TimerFires (sendChatMessage json_hel [ReadValue hel_chunk, ReadDone]) =
       sendChatMessage json_hel [ReadValue hel_chunk, ReadDone]"
  using connection_timeout_until_first_chunk [of json_hel 1 hel_chunk "[ReadDone]"] by simp

text \<open>
  C9 as stated fails: the guard depends on the progress of the stream. A stream that
  delivers one message event and then stalls has disarmed the timer; when the 60 seconds
  are over nothing happens, no error is reported, and the loop goes on waiting for the
  next read.
\<close>

theorem stalled_stream_no_timeout_counterexample:
  "sendChatMessage json_hel [ReadValue hel_chunk, TimerFires] =
     \<lparr> hasReceivedMessage = True, timerPending = False, readerCancelled = False,
       reading = True, callbacks = [OnChunk ''Hel''] \<rparr>"
  by code_simp


section \<open>Properties of the protocol parser\<close>

subsection \<open>Strings and the scan\<close>


lemma starts_with_iff: "starts_with p s \<longleftrightarrow> (\<exists>r. s = p @ r)"
proof (induction p s rule: starts_with.induct)
  case (1 s)
  then show ?case by simp
next
  case (2 p ps)
  then show ?case by simp
next
  case (3 p ps c cs)
  then show ?case by auto
qed



lemma indexOf_le: "indexOf pat s = Some i \<Longrightarrow> i + length pat \<le> length s"
proof (induction s arbitrary: i)
  case Nil
  then show ?case by (simp split: if_splits)
next
  case (Cons c cs)
  show ?case
  proof (cases "starts_with pat (c # cs)")
    case True
    then obtain r where "c # cs = pat @ r" by (auto simp: starts_with_iff)
    then have "length pat \<le> length (c # cs)" by (metis length_append le_add1)
    with True Cons.prems show ?thesis by simp
  next
    case False
    with Cons.prems obtain j where "indexOf pat cs = Some j" "i = Suc j" by auto
    with Cons.IH [of j] show ?thesis by simp
  qed
qed

























subsection \<open>The matcher on a well-formed tag\<close>



















lemma rmatch_close: "rmatch (Close n (a @ t) # r) t c = rmatch r t (c(n \<mapsto> a))"
  by simp


























end
